theory Spec2Isabelle
  imports Main "HOL-Library.AList" "HOL-Library.Sublist"
begin

section \<open>The filesystem and the processes the tool runs on\<close>

text \<open>
  \<^verbatim>\<open>backup_restore.py\<close> works on the filesystem through \<^verbatim>\<open>pathlib\<close>, \<^verbatim>\<open>shutil\<close>,
  \<^verbatim>\<open>tarfile\<close> and \<^verbatim>\<open>gzip\<close>, and on the database through \<^verbatim>\<open>subprocess.run\<close>.
  The filesystem is a tree; a path is the list of its components from the root
  (\<^verbatim>\<open>/etc/kamailio\<close> is \<open>[''etc'', ''kamailio'']\<close>). A regular file is one of: plain
  bytes, a gzip stream of bytes, a gzipped tar archive (its root member's name and the
  tree below it), or the JSON metadata record of a full backup. An exception is the
  string Python would print for it. Log output is not part of the model.
\<close>

type_synonym path = "string list"
type_synonym exn = string
type_synonym outcomes = "(string \<times> string) list"

record backup_info =
  timestamp :: string
  hostname :: string
  backup_type :: string
  results :: "(string \<times> outcomes) list"

datatype node =
    Dir "(string \<times> node) list"
  | RawFile string
  | GzFile string
  | TarGzFile string node
  | JsonFile backup_info

fun lookup :: "node \<Rightarrow> path \<Rightarrow> node option" where
  "lookup n [] = Some n"
| "lookup (Dir es) (x # xs) = (case map_of es x of None \<Rightarrow> None | Some c \<Rightarrow> lookup c xs)"
| "lookup _ (x # xs) = None"

definition exists :: "node \<Rightarrow> path \<Rightarrow> bool" where
  "exists fs p = (lookup fs p \<noteq> None)"

fun is_dir_node :: "node \<Rightarrow> bool" where
  "is_dir_node (Dir es) = True"
| "is_dir_node _ = False"

definition is_dir :: "node \<Rightarrow> path \<Rightarrow> bool" where
  "is_dir fs p = (case lookup fs p of Some n \<Rightarrow> is_dir_node n | None \<Rightarrow> False)"

definition is_file :: "node \<Rightarrow> path \<Rightarrow> bool" where
  "is_file fs p = (case lookup fs p of Some n \<Rightarrow> \<not> is_dir_node n | None \<Rightarrow> False)"

text \<open>
  \<open>store p v fs\<close> binds the entry at \<open>p\<close> to \<open>v\<close>, or removes it when \<open>v\<close> is \<open>None\<close>.
  The parent of \<open>p\<close> has to be a directory; the callers below check that before they
  write, and raise what Python raises when it is not.
\<close>

fun store :: "path \<Rightarrow> node option \<Rightarrow> node \<Rightarrow> node" where
  "store [] v n = (case v of Some m \<Rightarrow> m | None \<Rightarrow> n)"
| "store [x] v (Dir es) =
     Dir (case v of Some m \<Rightarrow> AList.update x m es | None \<Rightarrow> AList.delete x es)"
| "store (x # y # ys) v (Dir es) =
     (case map_of es x of
        Some c \<Rightarrow> Dir (AList.update x (store (y # ys) v c) es)
      | None \<Rightarrow> Dir es)"
| "store (x # xs) v n = n"

text \<open>\<^verbatim>\<open>Path.mkdir(parents=True, exist_ok=True)\<close>: a file on the way raises.\<close>

fun mkdir_p :: "path \<Rightarrow> node \<Rightarrow> exn + node" where
  "mkdir_p [] (Dir es) = Inr (Dir es)"
| "mkdir_p [] _ = Inl ''FileExistsError''"
| "mkdir_p (x # xs) (Dir es) =
     (case map_of es x of
        None \<Rightarrow>
          (case mkdir_p xs (Dir []) of
             Inl e \<Rightarrow> Inl e
           | Inr c \<Rightarrow> Inr (Dir (AList.update x c es)))
      | Some c \<Rightarrow>
          (case mkdir_p xs c of
             Inl e \<Rightarrow> Inl e
           | Inr c' \<Rightarrow> Inr (Dir (AList.update x c' es))))"
| "mkdir_p (x # xs) _ = Inl ''NotADirectoryError''"

text \<open>\<^verbatim>\<open>Path.mkdir(exist_ok=True)\<close>: the parent has to be there.\<close>

definition mkdir_exist_ok :: "path \<Rightarrow> node \<Rightarrow> exn + node" where
  "mkdir_exist_ok p fs =
     (if is_dir fs p then Inr fs
      else if exists fs p then Inl ''FileExistsError''
      else if p = [] \<or> \<not> is_dir fs (butlast p) then Inl ''FileNotFoundError''
      else Inr (store p (Some (Dir [])) fs))"

text \<open>
  Writing a tree over what is already at the destination, as \<^verbatim>\<open>shutil.copytree\<close> with
  \<^verbatim>\<open>dirs_exist_ok=True\<close> and \<^verbatim>\<open>TarFile.extractall\<close> do: directories are merged, a file
  replaces a file, and a file meeting a directory (or the reverse) is an error that
  leaves the destination entry as it was. With \<open>stop\<close> the first error ends the walk
  (\<^verbatim>\<open>extractall\<close>); without it the walk goes on and reports at the end (\<^verbatim>\<open>copytree\<close>).
  A destination that is not there receives the source tree as it is.
\<close>

fun overlay :: "bool \<Rightarrow> node \<Rightarrow> node option \<Rightarrow> bool \<times> node"
  and overlay_entries ::
    "bool \<Rightarrow> (string \<times> node) list \<Rightarrow> (string \<times> node) list \<Rightarrow> bool \<times> (string \<times> node) list"
where
  "overlay stop src None = (False, src)"
| "overlay stop (Dir ses) (Some (Dir des)) =
     (case overlay_entries stop ses des of (bad, es) \<Rightarrow> (bad, Dir es))"
| "overlay stop (Dir ses) (Some d) = (True, d)"
| "overlay stop src (Some (Dir des)) = (True, Dir des)"
| "overlay stop src (Some d) = (False, src)"
| "overlay_entries stop [] des = (False, des)"
| "overlay_entries stop ((k, s) # ses) des =
     (case overlay stop s (map_of des k) of
        (bad, n) \<Rightarrow>
          if bad \<and> stop then (True, AList.update k n des)
          else (case overlay_entries stop ses (AList.update k n des) of
                  (bad', es) \<Rightarrow> (bad \<or> bad', es)))"


text \<open>
  What the tool cannot decide itself comes from the environment: the result of a
  process (which may depend on the commands run before it), whether a copy fails and
  what a failed copy has left at its destination, the host name and the clock. A
  process result is an exception raised by \<^verbatim>\<open>subprocess.run\<close> or a return code with
  the captured standard output and standard error. Times are integers: the microseconds
  of local time since \<^verbatim>\<open>datetime.min\<close>. \<open>now\<close> is what \<^verbatim>\<open>datetime.now()\<close> returns and
  \<open>st_mtime\<close> what \<^verbatim>\<open>datetime.fromtimestamp\<close> makes of the modification time of a path.
\<close>

datatype proc_result = Raised exn | Exited int string string

record env =
  run_proc :: "string list list \<Rightarrow> string list \<Rightarrow> proc_result"
  copy_fault :: "path \<Rightarrow> path \<Rightarrow> (exn \<times> node option) option"
  nodename :: string
  strftime_now :: string
  now :: int
  st_mtime :: "path \<Rightarrow> int"

text \<open>The state the tool changes: the filesystem and the commands run so far.\<close>

record world =
  fs :: node
  cmds :: "string list list"

definition subprocess_run :: "env \<Rightarrow> string list \<Rightarrow> world \<Rightarrow> proc_result \<times> world" where
  "subprocess_run E cmd w = (run_proc E (cmds w) cmd, w\<lparr>cmds := cmds w @ [cmd]\<rparr>)"

definition name :: "path \<Rightarrow> string" where
  "name p = (if p = [] then [] else last p)"

text \<open>
  \<^verbatim>\<open>shutil.copytree(src, dst, dirs_exist_ok=ok)\<close>. The source is listed first, then the
  destination and its parents are made, then the entries are copied. Errors of single
  entries are collected and raised at the end, so a failed copy leaves a part of the
  tree behind.
\<close>

definition write_tree :: "bool \<Rightarrow> node \<Rightarrow> path \<Rightarrow> node \<Rightarrow> exn option \<times> node" where
  "write_tree stop n dst f =
     (case mkdir_p (butlast dst) f of
        Inl e \<Rightarrow> (Some e, f)
      | Inr f1 \<Rightarrow>
          (case overlay stop n (lookup f1 dst) of
             (bad, m) \<Rightarrow> (if bad then Some ''OSError'' else None, store dst (Some m) f1)))"

definition copytree :: "env \<Rightarrow> bool \<Rightarrow> path \<Rightarrow> path \<Rightarrow> node \<Rightarrow> exn option \<times> node" where
  "copytree E ok src dst f =
     (case lookup f src of
        None \<Rightarrow> (Some ''FileNotFoundError'', f)
      | Some (Dir ses) \<Rightarrow>
          if \<not> ok \<and> exists f dst then (Some ''FileExistsError'', f)
          else (case copy_fault E src dst of
                  Some (e, None) \<Rightarrow> (Some e, f)
                | Some (e, Some part) \<Rightarrow> (Some e, snd (write_tree False part dst f))
                | None \<Rightarrow> write_tree False (Dir ses) dst f)
      | Some _ \<Rightarrow> (Some ''NotADirectoryError'', f))"

text \<open>\<^verbatim>\<open>shutil.copy2(src, dst)\<close>: into \<open>dst\<close> when it is a directory, onto it otherwise.\<close>

definition copy2 :: "env \<Rightarrow> path \<Rightarrow> path \<Rightarrow> node \<Rightarrow> exn option \<times> node" where
  "copy2 E src dst f =
     (case lookup f src of
        None \<Rightarrow> (Some ''FileNotFoundError'', f)
      | Some n \<Rightarrow>
          if is_dir_node n then (Some ''IsADirectoryError'', f)
          else
            (let target = (if is_dir f dst then dst @ [name src] else dst) in
             if is_dir f target then (Some ''IsADirectoryError'', f)
             else if target = [] \<or> \<not> is_dir f (butlast target)
               then (Some ''FileNotFoundError'', f)
             else (case copy_fault E src dst of
                     Some (e, None) \<Rightarrow> (Some e, f)
                   | Some (e, Some part) \<Rightarrow> (Some e, store target (Some part) f)
                   | None \<Rightarrow> (None, store target (Some n) f))))"

definition rmtree :: "path \<Rightarrow> node \<Rightarrow> exn + node" where
  "rmtree p f =
     (case lookup f p of
        None \<Rightarrow> Inl ''FileNotFoundError''
      | Some n \<Rightarrow>
          if is_dir_node n \<and> p \<noteq> [] then Inr (store p None f)
          else Inl ''NotADirectoryError'')"

definition unlink :: "path \<Rightarrow> node \<Rightarrow> exn + node" where
  "unlink p f =
     (case lookup f p of
        None \<Rightarrow> Inl ''FileNotFoundError''
      | Some n \<Rightarrow>
          if is_dir_node n then Inl ''IsADirectoryError''
          else Inr (store p None f))"

text \<open>\<^verbatim>\<open>open(p, 'w')\<close> and the write that follows it.\<close>

definition write_file :: "path \<Rightarrow> node \<Rightarrow> node \<Rightarrow> exn + node" where
  "write_file p n f =
     (if is_dir f p then Inl ''IsADirectoryError''
      else if p = [] \<or> \<not> is_dir f (butlast p) then Inl ''FileNotFoundError''
      else Inr (store p (Some n) f))"

text \<open>
  \<^verbatim>\<open>with tarfile.open(archive, "w:gz") as tar: tar.add(src, arcname=arcname)\<close>: the
  archive file is opened (and emptied) before the source is read.
\<close>

definition tar_create :: "path \<Rightarrow> path \<Rightarrow> string \<Rightarrow> node \<Rightarrow> exn option \<times> node" where
  "tar_create archive src arcname f =
     (case write_file archive (TarGzFile arcname (Dir [])) f of
        Inl e \<Rightarrow> (Some e, f)
      | Inr f1 \<Rightarrow>
          (case lookup f1 src of
             None \<Rightarrow> (Some ''FileNotFoundError'', f1)
           | Some n \<Rightarrow> (None, store archive (Some (TarGzFile arcname n)) f1)))"

text \<open>\<^verbatim>\<open>with tarfile.open(archive, "r:gz") as tar: tar.extractall(dest)\<close>.\<close>

definition extractall :: "path \<Rightarrow> path \<Rightarrow> node \<Rightarrow> exn option \<times> node" where
  "extractall archive dest f =
     (case lookup f archive of
        None \<Rightarrow> (Some ''FileNotFoundError'', f)
      | Some (TarGzFile arcname tree) \<Rightarrow> write_tree True tree (dest @ [arcname]) f
      | Some (Dir es) \<Rightarrow> (Some ''IsADirectoryError'', f)
      | Some _ \<Rightarrow> (Some ''tarfile.ReadError'', f))"

section \<open>The class \<^verbatim>\<open>TelecomBackup\<close>\<close>

record telecom_backup =
  backup_dir :: path
  config_paths :: "(string \<times> path list) list"
  db_user :: string
  databases :: "string list"

definition default_config_paths :: "(string \<times> path list) list" where
  "default_config_paths =
     [(''kamailio'', [[''etc'', ''kamailio'']]),
      (''freeradius'', [[''etc'', ''freeradius'']]),
      (''mariadb'', [[''etc'', ''mysql'']]),
      (''keepalived'', [[''etc'', ''keepalived'']]),
      (''puppet'', [[''etc'', ''puppetlabs'']]),
      (''monitoring'', [[''opt'', ''monitoring'']]),
      (''ssl_certs'', [[''etc'', ''ssl''], [''opt'', ''ca'']]),
      (''wireguard'', [[''etc'', ''wireguard'']]),
      (''haproxy'', [[''etc'', ''haproxy'']])]"

definition new_telecom_backup :: "path \<Rightarrow> telecom_backup" where
  "new_telecom_backup bd =
     \<lparr>backup_dir = bd,
      config_paths = default_config_paths,
      db_user = ''root'',
      databases = [''kamailio'', ''radius'', ''mysql'']\<rparr>"

text \<open>\<^verbatim>\<open>__init__\<close>: the object, and the backup directory made with its parents.\<close>

definition init :: "path \<Rightarrow> world \<Rightarrow> (exn + telecom_backup) \<times> world" where
  "init bd w =
     (case mkdir_p bd (fs w) of
        Inl e \<Rightarrow> (Inl e, w)
      | Inr f \<Rightarrow> (Inr (new_telecom_backup bd), w\<lparr>fs := f\<rparr>))"


subsection \<open>\<^verbatim>\<open>backup_configurations\<close>\<close>

text \<open>
  The inner loop over the paths of one service, the outer loop over the services, then
  the archive and the removal of the staging directory. Only the copies are inside a
  \<^verbatim>\<open>try\<close>; \<^verbatim>\<open>mkdir\<close>, \<^verbatim>\<open>tarfile\<close> and \<^verbatim>\<open>rmtree\<close> raise out of the method.
\<close>

definition outcome_key :: "string \<Rightarrow> path \<Rightarrow> string" where
  "outcome_key service p = service @ ''_'' @ name p"

definition backup_path :: "env \<Rightarrow> path \<Rightarrow> string \<Rightarrow> path \<Rightarrow> outcomes \<times> node \<Rightarrow> outcomes \<times> node"
where
  "backup_path E service_backup_dir service p st =
     (case st of (res, f) \<Rightarrow>
        if exists f p then
          (case (if is_dir f p
                 then copytree E True p (service_backup_dir @ [name p]) f
                 else copy2 E p service_backup_dir f) of
             (None, f') \<Rightarrow> (AList.update (outcome_key service p) ''success'' res, f')
           | (Some e, f') \<Rightarrow> (AList.update (outcome_key service p) (''error: '' @ e) res, f'))
        else (AList.update (outcome_key service p) ''path_not_found'' res, f))"

fun backup_paths :: "env \<Rightarrow> path \<Rightarrow> string \<Rightarrow> path list \<Rightarrow> outcomes \<times> node \<Rightarrow> outcomes \<times> node"
where
  "backup_paths E service_backup_dir service [] st = st"
| "backup_paths E service_backup_dir service (p # ps) st =
     backup_paths E service_backup_dir service ps (backup_path E service_backup_dir service p st)"

fun backup_services ::
  "env \<Rightarrow> path \<Rightarrow> (string \<times> path list) list \<Rightarrow> outcomes \<times> node \<Rightarrow> exn option \<times> outcomes \<times> node"
where
  "backup_services E config_backup_dir [] st = (None, st)"
| "backup_services E config_backup_dir ((service, paths) # rest) st =
     (case st of (res, f) \<Rightarrow>
        (case mkdir_p (config_backup_dir @ [service]) f of
           Inl e \<Rightarrow> (Some e, res, f)
         | Inr f1 \<Rightarrow>
             backup_services E config_backup_dir rest
               (backup_paths E (config_backup_dir @ [service]) service paths (res, f1))))"

definition config_archive_name :: "string \<Rightarrow> string" where
  "config_archive_name T = ''config_backup_'' @ T @ ''.tar.gz''"

definition backup_configurations ::
  "env \<Rightarrow> telecom_backup \<Rightarrow> string \<Rightarrow> world \<Rightarrow> (exn + outcomes) \<times> world"
where
  "backup_configurations E self T w =
     (let config_backup_dir = backup_dir self @ [''config_'' @ T] in
      case mkdir_p config_backup_dir (fs w) of
        Inl e \<Rightarrow> (Inl e, w)
      | Inr f1 \<Rightarrow>
          (case backup_services E config_backup_dir (config_paths self) ([], f1) of
             (Some e, res, f2) \<Rightarrow> (Inl e, w\<lparr>fs := f2\<rparr>)
           | (None, res, f2) \<Rightarrow>
               (case tar_create (backup_dir self @ [config_archive_name T])
                       config_backup_dir (''config_'' @ T) f2 of
                  (Some e, f3) \<Rightarrow> (Inl e, w\<lparr>fs := f3\<rparr>)
                | (None, f3) \<Rightarrow>
                    (case rmtree config_backup_dir f3 of
                       Inl e \<Rightarrow> (Inl e, w\<lparr>fs := f3\<rparr>)
                     | Inr f4 \<Rightarrow> (Inr res, w\<lparr>fs := f4\<rparr>)))))"

subsection \<open>\<^verbatim>\<open>backup_databases\<close>\<close>

definition mysqldump_cmd :: "telecom_backup \<Rightarrow> string \<Rightarrow> string list" where
  "mysqldump_cmd self database =
     [''mysqldump'', ''-u'', db_user self, ''--single-transaction'', ''--routines'',
      ''--triggers'', database]"

text \<open>
  The body of the loop over the databases; every exception in it is caught and becomes
  the outcome of that database.
\<close>

definition dump_database ::
  "env \<Rightarrow> telecom_backup \<Rightarrow> path \<Rightarrow> string \<Rightarrow> string \<Rightarrow> world \<Rightarrow> string \<times> world"
where
  "dump_database E self db_backup_dir T database w =
     (let backup_file = db_backup_dir @ [database @ ''_'' @ T @ ''.sql''];
          gz_file = db_backup_dir @ [database @ ''_'' @ T @ ''.sql.gz''] in
      case write_file backup_file (RawFile []) (fs w) of
        Inl e \<Rightarrow> (''exception: '' @ e, w)
      | Inr f1 \<Rightarrow>
          (case subprocess_run E (mysqldump_cmd self database) (w\<lparr>fs := f1\<rparr>) of
             (Raised e, w2) \<Rightarrow> (''exception: '' @ e, w2)
           | (Exited rc out err, w2) \<Rightarrow>
               (let f2 = store backup_file (Some (RawFile out)) (fs w2) in
                if rc = 0 then
                  (case write_file gz_file (GzFile out) f2 of
                     Inl e \<Rightarrow> (''exception: '' @ e, w2\<lparr>fs := f2\<rparr>)
                   | Inr f3 \<Rightarrow>
                       (case unlink backup_file f3 of
                          Inl e \<Rightarrow> (''exception: '' @ e, w2\<lparr>fs := f3\<rparr>)
                        | Inr f4 \<Rightarrow> (''success'', w2\<lparr>fs := f4\<rparr>)))
                else (''error: '' @ err, w2\<lparr>fs := f2\<rparr>))))"

fun dump_databases ::
  "env \<Rightarrow> telecom_backup \<Rightarrow> path \<Rightarrow> string \<Rightarrow> string list \<Rightarrow> outcomes \<times> world \<Rightarrow> outcomes \<times> world"
where
  "dump_databases E self db_backup_dir T [] st = st"
| "dump_databases E self db_backup_dir T (database # rest) st =
     (case st of (res, w) \<Rightarrow>
        (case dump_database E self db_backup_dir T database w of
           (outcome, w') \<Rightarrow>
             dump_databases E self db_backup_dir T rest (AList.update database outcome res, w')))"

definition galera_cmd :: "string list" where
  "galera_cmd =
     [''mysql'', ''-u'', ''root'', ''-e'',
      ''SHOW STATUS LIKE 'wsrep_%'; SHOW VARIABLES LIKE 'wsrep_%';'']"

definition galera_cluster_info :: "env \<Rightarrow> path \<Rightarrow> string \<Rightarrow> world \<Rightarrow> string \<times> world" where
  "galera_cluster_info E db_backup_dir T w =
     (let cluster_info_file = db_backup_dir @ [''galera_cluster_info_'' @ T @ ''.txt''] in
      case write_file cluster_info_file (RawFile []) (fs w) of
        Inl e \<Rightarrow> (''exception: '' @ e, w)
      | Inr f1 \<Rightarrow>
          (case subprocess_run E galera_cmd (w\<lparr>fs := f1\<rparr>) of
             (Raised e, w2) \<Rightarrow> (''exception: '' @ e, w2)
           | (Exited rc out err, w2) \<Rightarrow>
               (if rc = 0 then ''success'' else ''error: '' @ err,
                w2\<lparr>fs := store cluster_info_file (Some (RawFile out)) (fs w2)\<rparr>)))"

definition database_archive_name :: "string \<Rightarrow> string" where
  "database_archive_name T = ''database_backup_'' @ T @ ''.tar.gz''"

definition is_active_cmd :: "string list" where
  "is_active_cmd = [''systemctl'', ''is-active'', ''mariadb'']"

definition backup_databases ::
  "env \<Rightarrow> telecom_backup \<Rightarrow> string \<Rightarrow> world \<Rightarrow> (exn + outcomes) \<times> world"
where
  "backup_databases E self T w =
     (let db_backup_dir = backup_dir self @ [''database_'' @ T] in
      case mkdir_p db_backup_dir (fs w) of
        Inl e \<Rightarrow> (Inl e, w)
      | Inr f1 \<Rightarrow>
          (case subprocess_run E is_active_cmd (w\<lparr>fs := f1\<rparr>) of
             (Raised e, w2) \<Rightarrow> (Inr [(''database_check'', ''error: '' @ e)], w2)
           | (Exited rc out err, w2) \<Rightarrow>
               if rc \<noteq> 0 then (Inr [(''database_service'', ''not_running'')], w2)
               else
                 (case dump_databases E self db_backup_dir T (databases self) ([], w2) of
                    (res, w3) \<Rightarrow>
                      (case galera_cluster_info E db_backup_dir T w3 of
                         (outcome, w4) \<Rightarrow>
                           (let res' = AList.update ''galera_cluster_info'' outcome res in
                            case tar_create (backup_dir self @ [database_archive_name T])
                                   db_backup_dir (''database_'' @ T) (fs w4) of
                              (Some e, f5) \<Rightarrow> (Inl e, w4\<lparr>fs := f5\<rparr>)
                            | (None, f5) \<Rightarrow>
                                (case rmtree db_backup_dir f5 of
                                   Inl e \<Rightarrow> (Inl e, w4\<lparr>fs := f5\<rparr>)
                                 | Inr f6 \<Rightarrow> (Inr res', w4\<lparr>fs := f6\<rparr>)))))))"


subsection \<open>\<^verbatim>\<open>backup_monitoring_data\<close>\<close>

text \<open>
  \<^verbatim>\<open>Path.glob\<close> with a pattern of one component lists the directory once and keeps the
  names that match; on something that is not a directory it yields nothing. Of the
  special characters of \<^verbatim>\<open>fnmatch\<close> the patterns of this program use \<^verbatim>\<open>*\<close> only.
\<close>

fun fnmatch :: "string \<Rightarrow> string \<Rightarrow> bool" where
  "fnmatch [] [] = True"
| "fnmatch [] (c # s) = False"
| "fnmatch (p # ps) [] = (p = CHR ''*'' \<and> fnmatch ps [])"
| "fnmatch (p # ps) (c # s) =
     (if p = CHR ''*'' then fnmatch ps (c # s) \<or> fnmatch (p # ps) s
      else p = c \<and> fnmatch ps s)"

definition listdir :: "node \<Rightarrow> path \<Rightarrow> string list" where
  "listdir f d = (case lookup f d of Some (Dir es) \<Rightarrow> remdups (map fst es) | _ \<Rightarrow> [])"

definition glob :: "node \<Rightarrow> path \<Rightarrow> string \<Rightarrow> path list" where
  "glob f d pat = map (\<lambda>n. d @ [n]) (filter (fnmatch pat) (listdir f d))"

text \<open>
  The loop over the volumes of one kind; the \<^verbatim>\<open>try\<close> is around the whole loop, so the
  first failing copy ends it.
\<close>

fun copy_volumes ::
  "env \<Rightarrow> path \<Rightarrow> string \<Rightarrow> path list \<Rightarrow> outcomes \<times> node \<Rightarrow> exn option \<times> outcomes \<times> node"
where
  "copy_volumes E monitoring_backup_dir kind [] st = (None, st)"
| "copy_volumes E monitoring_backup_dir kind (volume_dir # rest) st =
     (case st of (res, f) \<Rightarrow>
        (case copytree E True volume_dir (monitoring_backup_dir @ [name volume_dir]) f of
           (Some e, f') \<Rightarrow> (Some e, res, f')
         | (None, f') \<Rightarrow>
             copy_volumes E monitoring_backup_dir kind rest
               (AList.update (kind @ ''_volume_'' @ name volume_dir) ''success'' res, f')))"

definition docker_volumes :: path where
  "docker_volumes = [''var'', ''lib'', ''docker'', ''volumes'']"

definition backup_volumes ::
  "env \<Rightarrow> path \<Rightarrow> string \<Rightarrow> outcomes \<times> node \<Rightarrow> outcomes \<times> node"
where
  "backup_volumes E monitoring_backup_dir kind st =
     (case st of (res, f) \<Rightarrow>
        if exists f docker_volumes then
          (case copy_volumes E monitoring_backup_dir kind
                  (glob f docker_volumes (''*'' @ kind @ ''*'')) (res, f) of
             (Some e, res', f') \<Rightarrow> (AList.update (kind @ ''_data'') (''error: '' @ e) res', f')
           | (None, res', f') \<Rightarrow> (res', f'))
        else (res, f))"

definition dashboard_source :: path where
  "dashboard_source = [''opt'', ''monitoring'', ''grafana'', ''dashboards'']"

definition export_dashboards :: "env \<Rightarrow> path \<Rightarrow> outcomes \<times> node \<Rightarrow> outcomes \<times> node" where
  "export_dashboards E monitoring_backup_dir st =
     (case st of (res, f) \<Rightarrow>
        (let grafana_export_dir = monitoring_backup_dir @ [''grafana_export''] in
         case mkdir_p grafana_export_dir f of
           Inl e \<Rightarrow> (AList.update ''grafana_dashboards'' (''error: '' @ e) res, f)
         | Inr f1 \<Rightarrow>
             if exists f1 dashboard_source then
               (case copytree E True dashboard_source (grafana_export_dir @ [''dashboards'']) f1 of
                  (Some e, f2) \<Rightarrow> (AList.update ''grafana_dashboards'' (''error: '' @ e) res, f2)
                | (None, f2) \<Rightarrow> (AList.update ''grafana_dashboards'' ''success'' res, f2))
             else (res, f1)))"

definition monitoring_archive_name :: "string \<Rightarrow> string" where
  "monitoring_archive_name T = ''monitoring_backup_'' @ T @ ''.tar.gz''"

definition backup_monitoring_data ::
  "env \<Rightarrow> telecom_backup \<Rightarrow> string \<Rightarrow> world \<Rightarrow> (exn + outcomes) \<times> world"
where
  "backup_monitoring_data E self T w =
     (let monitoring_backup_dir = backup_dir self @ [''monitoring_'' @ T] in
      case mkdir_p monitoring_backup_dir (fs w) of
        Inl e \<Rightarrow> (Inl e, w)
      | Inr f1 \<Rightarrow>
          (case export_dashboards E monitoring_backup_dir
                  (backup_volumes E monitoring_backup_dir ''grafana''
                     (backup_volumes E monitoring_backup_dir ''prometheus'' ([], f1))) of
             (res, f2) \<Rightarrow>
               (case tar_create (backup_dir self @ [monitoring_archive_name T])
                       monitoring_backup_dir (''monitoring_'' @ T) f2 of
                  (Some e, f3) \<Rightarrow> (Inl e, w\<lparr>fs := f3\<rparr>)
                | (None, f3) \<Rightarrow>
                    (case rmtree monitoring_backup_dir f3 of
                       Inl e \<Rightarrow> (Inl e, w\<lparr>fs := f3\<rparr>)
                     | Inr f4 \<Rightarrow> (Inr res, w\<lparr>fs := f4\<rparr>)))))"

subsection \<open>\<^verbatim>\<open>create_full_backup\<close>\<close>

text \<open>
  Each component runs inside its own \<^verbatim>\<open>try\<close>: an exception becomes the outcome map
  \<^verbatim>\<open>{'error': str(e)}\<close> of that component. The metadata file is written after the three
  of them, outside any \<^verbatim>\<open>try\<close>.
\<close>

definition attempt :: "(exn + outcomes) \<times> world \<Rightarrow> outcomes \<times> world" where
  "attempt r = (case r of (Inl e, w) \<Rightarrow> ([(''error'', e)], w) | (Inr res, w) \<Rightarrow> (res, w))"

definition metadata_name :: "string \<Rightarrow> string" where
  "metadata_name T = ''backup_metadata_'' @ T @ ''.json''"

definition create_full_backup ::
  "env \<Rightarrow> telecom_backup \<Rightarrow> world \<Rightarrow> (exn + backup_info) \<times> world"
where
  "create_full_backup E self w =
     (let T = strftime_now E in
      case attempt (backup_configurations E self T w) of
        (config_results, w1) \<Rightarrow>
          (case attempt (backup_databases E self T w1) of
             (db_results, w2) \<Rightarrow>
               (case attempt (backup_monitoring_data E self T w2) of
                  (monitoring_results, w3) \<Rightarrow>
                    (let backup_info =
                           \<lparr>timestamp = T, hostname = nodename E, backup_type = ''full'',
                            results = [(''configurations'', config_results),
                                       (''databases'', db_results),
                                       (''monitoring'', monitoring_results)]\<rparr> in
                     case write_file (backup_dir self @ [metadata_name T])
                            (JsonFile backup_info) (fs w3) of
                       Inl e \<Rightarrow> (Inl e, w3)
                     | Inr f4 \<Rightarrow> (Inr backup_info, w3\<lparr>fs := f4\<rparr>)))))"

subsection \<open>\<^verbatim>\<open>restore_configuration\<close>\<close>

text \<open>
  The loop over the paths of the named service. The whole body of the method is in one
  \<^verbatim>\<open>try\<close>, so an exception ends the loop and the method returns \<^verbatim>\<open>False\<close>.
\<close>

fun restore_service_paths :: "env \<Rightarrow> path \<Rightarrow> path list \<Rightarrow> node \<Rightarrow> exn option \<times> node" where
  "restore_service_paths E service_dir [] f = (None, f)"
| "restore_service_paths E service_dir (p # ps) f =
     (let source = service_dir @ [name p] in
      if exists f source then
        (if is_dir f p then
           (case rmtree p f of
              Inl e \<Rightarrow> (Some e, f)
            | Inr f1 \<Rightarrow>
                (case copytree E False source p f1 of
                   (Some e, f2) \<Rightarrow> (Some e, f2)
                 | (None, f2) \<Rightarrow> restore_service_paths E service_dir ps f2))
         else
           (case copy2 E source p f of
              (Some e, f1) \<Rightarrow> (Some e, f1)
            | (None, f1) \<Rightarrow> restore_service_paths E service_dir ps f1))
      else restore_service_paths E service_dir ps f)"

text \<open>The loops of the branch that restores every service.\<close>

fun restore_all_paths :: "env \<Rightarrow> path \<Rightarrow> path list \<Rightarrow> node \<Rightarrow> exn option \<times> node" where
  "restore_all_paths E service_dir [] f = (None, f)"
| "restore_all_paths E service_dir (p # ps) f =
     (let source = service_dir @ [name p] in
      if exists f source then
        (case (if exists f p then (if is_dir f p then rmtree p f else unlink p f) else Inr f) of
           Inl e \<Rightarrow> (Some e, f)
         | Inr f1 \<Rightarrow>
             (case (if is_dir f1 source then copytree E False source p f1
                    else copy2 E source p f1) of
                (Some e, f2) \<Rightarrow> (Some e, f2)
              | (None, f2) \<Rightarrow> restore_all_paths E service_dir ps f2))
      else restore_all_paths E service_dir ps f)"

fun restore_all_services ::
  "env \<Rightarrow> path \<Rightarrow> (string \<times> path list) list \<Rightarrow> node \<Rightarrow> exn option \<times> node"
where
  "restore_all_services E config_dir [] f = (None, f)"
| "restore_all_services E config_dir ((service_name, paths) # rest) f =
     (if exists f (config_dir @ [service_name]) then
        (case restore_all_paths E (config_dir @ [service_name]) paths f of
           (Some e, f1) \<Rightarrow> (Some e, f1)
         | (None, f1) \<Rightarrow> restore_all_services E config_dir rest f1)
      else restore_all_services E config_dir rest f)"

text \<open>
  \<^verbatim>\<open>if service:\<close> takes the first branch for a string that is not empty; \<^verbatim>\<open>None\<close> and
  the empty string restore every service. \<open>truthy\<close> gives the string in the first case.
\<close>

definition truthy :: "string option \<Rightarrow> string option" where
  "truthy s = (case s of None \<Rightarrow> None | Some x \<Rightarrow> if x = [] then None else Some x)"

definition dict_get :: "('k \<times> 'v list) list \<Rightarrow> 'k \<Rightarrow> 'v list" where
  "dict_get d k = (case map_of d k of None \<Rightarrow> [] | Some v \<Rightarrow> v)"

definition restore_configuration ::
  "env \<Rightarrow> telecom_backup \<Rightarrow> string \<Rightarrow> string option \<Rightarrow> world \<Rightarrow> bool \<times> world"
where
  "restore_configuration E self T service w =
     (let config_archive = backup_dir self @ [config_archive_name T] in
      if \<not> exists (fs w) config_archive then (False, w)
      else
        (let temp_dir = backup_dir self @ [''temp_restore_'' @ T] in
         case mkdir_exist_ok temp_dir (fs w) of
           Inl e \<Rightarrow> (False, w)
         | Inr f1 \<Rightarrow>
             (case extractall config_archive temp_dir f1 of
                (Some e, f2) \<Rightarrow> (False, w\<lparr>fs := f2\<rparr>)
              | (None, f2) \<Rightarrow>
                  (let config_dir = temp_dir @ [''config_'' @ T] in
                   case truthy service of
                     Some s \<Rightarrow>
                       (let service_dir = config_dir @ [s] in
                        if exists f2 service_dir then
                          (case restore_service_paths E service_dir
                                  (dict_get (config_paths self) s) f2 of
                             (Some e, f3) \<Rightarrow> (False, w\<lparr>fs := f3\<rparr>)
                           | (None, f3) \<Rightarrow>
                               (case rmtree temp_dir f3 of
                                  Inl e \<Rightarrow> (False, w\<lparr>fs := f3\<rparr>)
                                | Inr f4 \<Rightarrow> (True, w\<lparr>fs := f4\<rparr>)))
                        else (False, w\<lparr>fs := f2\<rparr>))
                   | None \<Rightarrow>
                       (case restore_all_services E config_dir (config_paths self) f2 of
                          (Some e, f3) \<Rightarrow> (False, w\<lparr>fs := f3\<rparr>)
                        | (None, f3) \<Rightarrow>
                            (case rmtree temp_dir f3 of
                               Inl e \<Rightarrow> (False, w\<lparr>fs := f3\<rparr>)
                             | Inr f4 \<Rightarrow> (True, w\<lparr>fs := f4\<rparr>)))))))"

subsection \<open>\<^verbatim>\<open>restore_database\<close>\<close>

definition mysql_cmd :: "telecom_backup \<Rightarrow> string \<Rightarrow> string list" where
  "mysql_cmd self db_name = [''mysql'', ''-u'', db_user self, db_name]"

text \<open>
  The loop over the databases to restore. It ends in one of three ways: it runs to its
  end, it executes \<^verbatim>\<open>return False\<close>, or an exception leaves it.
\<close>

datatype loop_exit = Completed | ReturnedFalse | Exception exn

fun restore_databases ::
  "env \<Rightarrow> telecom_backup \<Rightarrow> path \<Rightarrow> string \<Rightarrow> string list \<Rightarrow> world \<Rightarrow> loop_exit \<times> world"
where
  "restore_databases E self db_dir T [] w = (Completed, w)"
| "restore_databases E self db_dir T (db_name # rest) w =
     (let sql_file = db_dir @ [db_name @ ''_'' @ T @ ''.sql.gz''] in
      if exists (fs w) sql_file then
        (if is_dir (fs w) sql_file then (Exception ''IsADirectoryError'', w)
         else
           (case subprocess_run E (mysql_cmd self db_name) w of
              (Raised e, w1) \<Rightarrow> (Exception e, w1)
            | (Exited rc out err, w1) \<Rightarrow>
                if rc = 0 then restore_databases E self db_dir T rest w1
                else (ReturnedFalse, w1)))
      else (ReturnedFalse, w))"

definition restore_database ::
  "env \<Rightarrow> telecom_backup \<Rightarrow> string \<Rightarrow> string option \<Rightarrow> world \<Rightarrow> bool \<times> world"
where
  "restore_database E self T database w =
     (let db_archive = backup_dir self @ [database_archive_name T] in
      if \<not> exists (fs w) db_archive then (False, w)
      else
        (let temp_dir = backup_dir self @ [''temp_db_restore_'' @ T] in
         case mkdir_exist_ok temp_dir (fs w) of
           Inl e \<Rightarrow> (False, w)
         | Inr f1 \<Rightarrow>
             (case extractall db_archive temp_dir f1 of
                (Some e, f2) \<Rightarrow> (False, w\<lparr>fs := f2\<rparr>)
              | (None, f2) \<Rightarrow>
                  (let db_dir = temp_dir @ [''database_'' @ T];
                       databases_to_restore =
                         (case truthy database of Some d \<Rightarrow> [d] | None \<Rightarrow> databases self) in
                   case restore_databases E self db_dir T databases_to_restore
                          (w\<lparr>fs := f2\<rparr>) of
                     (Completed, w3) \<Rightarrow>
                       (case rmtree temp_dir (fs w3) of
                          Inl e \<Rightarrow> (False, w3)
                        | Inr f4 \<Rightarrow> (True, w3\<lparr>fs := f4\<rparr>))
                   | (ReturnedFalse, w3) \<Rightarrow> (False, w3)
                   | (Exception e, w3) \<Rightarrow> (False, w3)))))"


subsection \<open>\<^verbatim>\<open>cleanup_old_backups\<close>\<close>

text \<open>
  \<^verbatim>\<open>str.replace(old, new)\<close> for a pattern that is not empty: the occurrences are
  replaced from the left and do not overlap.
\<close>

function replace :: "string \<Rightarrow> string \<Rightarrow> string \<Rightarrow> string" where
  "replace old new s =
     (if old = [] \<or> s = [] then s
      else if prefix old s then new @ replace old new (drop (length old) s)
      else hd s # replace old new (tl s))"
  by pat_completeness auto
termination
  by (relation "measure (\<lambda>(old, new, s). length s)") auto

declare replace.simps [simp del]

definition derived_metadata_name :: "string \<Rightarrow> string" where
  "derived_metadata_name n =
     replace ''.tar.gz'' ''.json'' (replace ''backup_'' ''metadata_'' n)"

definition microseconds_per_day :: int where
  "microseconds_per_day = 86400000000"

text \<open>
  A \<^verbatim>\<open>datetime\<close> is counted in microseconds from \<^verbatim>\<open>datetime.min\<close> (the first instant of
  the year 1) and has to lie below the end of the year 9999; \<^verbatim>\<open>timedelta(days=n)\<close> takes
  at most 999999999 days either way. An operation whose result is outside the range
  raises: the subtraction an \<^verbatim>\<open>OverflowError\<close>, \<^verbatim>\<open>datetime.fromtimestamp\<close> a
  \<^verbatim>\<open>ValueError\<close>.
\<close>

definition datetime_max :: int where
  "datetime_max = 3652059 * microseconds_per_day - 1"

definition timedelta_max_days :: int where
  "timedelta_max_days = 999999999"

definition in_datetime_range :: "int \<Rightarrow> bool" where
  "in_datetime_range t \<longleftrightarrow> 0 \<le> t \<and> t \<le> datetime_max"

text \<open>
  The body of the loop for one archive found by the glob, and the loop. The count and the
  filesystem are carried along; \<^verbatim>\<open>stat\<close>, \<^verbatim>\<open>fromtimestamp\<close> and \<^verbatim>\<open>unlink\<close> raise out of
  the method.
\<close>

definition cleanup_file ::
  "env \<Rightarrow> int \<Rightarrow> path \<Rightarrow> int \<times> node \<Rightarrow> exn option \<times> int \<times> node"
where
  "cleanup_file E cutoff_date backup_file st =
     (case st of (removed_count, f) \<Rightarrow>
        if \<not> exists f backup_file then (Some ''FileNotFoundError'', removed_count, f)
        else if \<not> in_datetime_range (st_mtime E backup_file)
          then (Some ''ValueError'', removed_count, f)
        else if st_mtime E backup_file < cutoff_date then
          (case unlink backup_file f of
             Inl e \<Rightarrow> (Some e, removed_count, f)
           | Inr f1 \<Rightarrow>
               (let metadata_file = butlast backup_file @ [derived_metadata_name (name backup_file)] in
                if exists f1 metadata_file then
                  (case unlink metadata_file f1 of
                     Inl e \<Rightarrow> (Some e, removed_count + 1, f1)
                   | Inr f2 \<Rightarrow> (None, removed_count + 1, f2))
                else (None, removed_count + 1, f1)))
        else (None, removed_count, f))"

fun cleanup_files ::
  "env \<Rightarrow> int \<Rightarrow> path list \<Rightarrow> int \<times> node \<Rightarrow> exn option \<times> int \<times> node"
where
  "cleanup_files E cutoff_date [] st = (None, st)"
| "cleanup_files E cutoff_date (backup_file # rest) st =
     (case cleanup_file E cutoff_date backup_file st of
        (Some e, st') \<Rightarrow> (Some e, st')
      | (None, st') \<Rightarrow> cleanup_files E cutoff_date rest st')"

definition cleanup_old_backups ::
  "env \<Rightarrow> telecom_backup \<Rightarrow> int \<Rightarrow> world \<Rightarrow> (exn + int) \<times> world"
where
  "cleanup_old_backups E self keep_days w =
     (if \<bar>keep_days\<bar> > timedelta_max_days then (Inl ''OverflowError'', w)
      else
        (let cutoff_date = now E - keep_days * microseconds_per_day in
         if \<not> in_datetime_range cutoff_date then (Inl ''OverflowError'', w)
         else
           (case cleanup_files E cutoff_date
                   (glob (fs w) (backup_dir self) ''*backup_*.tar.gz'') (0, fs w) of
              (Some e, removed_count, f) \<Rightarrow> (Inl e, w\<lparr>fs := f\<rparr>)
            | (None, removed_count, f) \<Rightarrow> (Inr removed_count, w\<lparr>fs := f\<rparr>))))"

definition touches_only :: "path \<Rightarrow> string set \<Rightarrow> node \<Rightarrow> node \<Rightarrow> bool" where
  "touches_only bd N f f' \<longleftrightarrow>
     (\<forall>q. \<not> prefix bd q \<and> \<not> prefix q bd \<longrightarrow> lookup f' q = lookup f q) \<and>
     (\<forall>n r. n \<notin> N \<longrightarrow> lookup f' (bd @ n # r) = lookup f (bd @ n # r)) \<and>
     (\<forall>q. prefix q bd \<longrightarrow> is_dir f q \<longrightarrow> is_dir f' q)"

definition below :: "path \<Rightarrow> string set \<Rightarrow> path \<Rightarrow> bool" where
  "below bd N p \<longleftrightarrow> (\<exists>n r. n \<in> N \<and> p = bd @ n # r)"

definition backup_names :: "string \<Rightarrow> string set" where
  "backup_names T =
     {''config_'' @ T, config_archive_name T, ''database_'' @ T, database_archive_name T,
      ''monitoring_'' @ T, monitoring_archive_name T}"

text \<open>A small machine to run the methods on: one configuration file, an empty backup directory,
  a database service that is not active.\<close>

definition example_env :: env where
  "example_env =
     \<lparr>run_proc = (\<lambda>log cmd. if cmd = is_active_cmd then Exited 3 ''inactive'' [] else Exited 0 [] []),
      copy_fault = (\<lambda>src dst. None),
      nodename = ''lab1'',
      strftime_now = ''20240101_120000'',
      now = 739000 * microseconds_per_day,
      st_mtime = (\<lambda>p. 0)\<rparr>"

definition example_self :: telecom_backup where
  "example_self = new_telecom_backup [''opt'', ''backups'']"

definition example_fs :: node where
  "example_fs =
     Dir [(''etc'', Dir [(''kamailio'', Dir [(''a.cfg'', RawFile ''listen=udp'')])]),
          (''opt'', Dir [(''backups'', Dir [])])]"

definition example_world :: world where
  "example_world = \<lparr>fs = example_fs, cmds = []\<rparr>"

text \<open>
  The databases of a list are restored one after the other without a failure: each dump
  is a file of the staged tree and each \<^verbatim>\<open>mysql\<close> run, after the runs before it, exits
  with zero.
\<close>

fun restores_succeed ::
  "env \<Rightarrow> telecom_backup \<Rightarrow> node \<Rightarrow> path \<Rightarrow> string \<Rightarrow> string list \<Rightarrow> string list list \<Rightarrow> bool"
where
  "restores_succeed E self f db_dir T [] log = True"
| "restores_succeed E self f db_dir T (d # ds) log =
     (is_file f (db_dir @ [d @ ''_'' @ T @ ''.sql.gz'']) \<and>
      (case run_proc E log (mysql_cmd self d) of
         Exited rc out err \<Rightarrow> rc = 0
       | Raised e \<Rightarrow> False) \<and>
      restores_succeed E self f db_dir T ds (log @ [mysql_cmd self d]))"

text \<open>
  A backup directory that holds a configuration archive and a database archive of the
  timestamp \<^verbatim>\<open>20240101_120000\<close>, and an environment in which restoring the database
  \<^verbatim>\<open>radius\<close> fails.
\<close>

definition archived_fs :: node where
  "archived_fs =
     Dir [(''etc'', Dir [(''kamailio'', Dir [(''a.cfg'', RawFile ''listen=tcp'')])]),
          (''opt'',
           Dir [(''backups'',
                 Dir [(''config_backup_20240101_120000.tar.gz'',
                       TarGzFile ''config_20240101_120000''
                         (Dir [(''kamailio'',
                                Dir [(''kamailio'', Dir [(''a.cfg'', RawFile ''listen=udp'')])]),
                               (''haproxy'', Dir [])])),
                      (''database_backup_20240101_120000.tar.gz'',
                       TarGzFile ''database_20240101_120000''
                         (Dir [(''kamailio_20240101_120000.sql.gz'', GzFile ''CREATE TABLE location;''),
                               (''radius_20240101_120000.sql.gz'', GzFile ''CREATE TABLE radcheck;''),
                               (''mysql_20240101_120000.sql.gz'', GzFile ''CREATE TABLE user;'')])),
                      (''database_backup_20240102_120000.tar.gz'',
                       TarGzFile ''database_20240102_120000''
                         (Dir [(''kamailio_20240102_120000.sql.gz'', GzFile ''CREATE TABLE location;''),
                               (''mysql_20240102_120000.sql.gz'', GzFile ''CREATE TABLE user;'')]))])])]"

definition archived_world :: world where
  "archived_world = \<lparr>fs = archived_fs, cmds = []\<rparr>"

definition radius_fails_env :: env where
  "radius_fails_env =
     example_env\<lparr>run_proc :=
       (\<lambda>log cmd. if cmd = [''mysql'', ''-u'', ''root'', ''radius'']
                   then Exited 1 [] ''ERROR 1045'' else Exited 0 [] [])\<rparr>"

text \<open>A pattern is free of borders when none of its proper prefixes ends it.\<close>

definition border_free :: "string \<Rightarrow> bool" where
  "border_free old \<longleftrightarrow> (\<forall>x \<in> set (prefixes old). suffix x old \<longrightarrow> x = [] \<or> x = old)"

text \<open>
  The characters of a timestamp made by \<^verbatim>\<open>strftime("%Y%m%d_%H%M%S")\<close>: digits and the
  underscore.
\<close>

definition timestamp_chars :: "string \<Rightarrow> bool" where
  "timestamp_chars T \<longleftrightarrow> list_all (\<lambda>c. c \<in> set ''0123456789_'') T"

text \<open>
  A backup directory with an archive of January, its metadata file as the program names
  it, a file of the name the cleanup derives, and an archive of March; the clock stands
  at day 739000 and the January files were last written on day 738910, the others on
  day 738995.
\<close>

definition cleanup_fs :: node where
  "cleanup_fs =
     Dir [(''opt'',
           Dir [(''backups'',
                 Dir [(''config_backup_20240101_120000.tar.gz'',
                       TarGzFile ''config_20240101_120000'' (Dir [])),
                      (''backup_metadata_20240101_120000.json'',
                       JsonFile \<lparr>timestamp = ''20240101_120000'', hostname = ''lab1'',
                                backup_type = ''full'', results = []\<rparr>),
                      (''config_metadata_20240101_120000.json'', RawFile ''{}''),
                      (''config_backup_20240301_120000.tar.gz'',
                       TarGzFile ''config_20240301_120000'' (Dir []))])])]"

definition cleanup_world :: world where
  "cleanup_world = \<lparr>fs = cleanup_fs, cmds = []\<rparr>"

definition cleanup_env :: env where
  "cleanup_env =
     example_env\<lparr>st_mtime :=
       (\<lambda>p. if p = [''opt'', ''backups'', ''config_backup_20240101_120000.tar.gz'']
                 \<or> p = [''opt'', ''backups'', ''backup_metadata_20240101_120000.json'']
              then 738910 * microseconds_per_day else 738995 * microseconds_per_day)\<rparr>"








lemma lookup_store_other:
  "\<not> prefix p q \<Longrightarrow> \<not> prefix q p \<Longrightarrow> lookup (store p v t) q = lookup t q"
proof (induction p v t arbitrary: q rule: store.induct)
  case (1 v n) then show ?case by simp
next
  case (2 x v es)
  then obtain y ys where q: "q = y # ys" and "y \<noteq> x" by (cases q) auto
  then show ?case by (cases v) (simp_all add: update_conv' delete_conv')
next
  case (3 x y ys v es)
  then obtain z zs where q: "q = z # zs" by (cases q) auto
  show ?case
  proof (cases "map_of es x")
    case None then show ?thesis by simp
  next
    case (Some c)
    show ?thesis
    proof (cases "z = x")
      case True
      with 3 q Some show ?thesis by (simp add: update_conv')
    next
      case False
      with q Some show ?thesis by (simp add: update_conv')
    qed
  qed
qed simp_all

lemma is_dir_node_store: "p \<noteq> [] \<Longrightarrow> is_dir_node (store p v t) = is_dir_node t"
  by (induction p v t rule: store.induct) (auto split: option.splits)

lemma is_dir_store_above:
  "strict_prefix q p \<Longrightarrow> is_dir (store p v t) q = is_dir t q"
proof (induction p v t arbitrary: q rule: store.induct)
  case (1 v n) then show ?case by simp
next
  case (2 x v es)
  then have "q = []" by (cases q) auto
  then show ?case by (simp add: is_dir_def)
next
  case (3 x y ys v es)
  show ?case
  proof (cases q)
    case Nil then show ?thesis by (simp add: is_dir_def split: option.splits)
  next
    case (Cons z zs)
    with 3 have zx: "z = x" and sp: "strict_prefix zs (y # ys)" by auto
    show ?thesis
    proof (cases "map_of es x")
      case None then show ?thesis by simp
    next
      case (Some c)
      from 3(1)[OF Some sp] show ?thesis using Some Cons zx
        by (simp add: is_dir_def update_conv')
    qed
  qed
qed simp_all

lemma lookup_store_hit:
  "p \<noteq> [] \<Longrightarrow> is_dir t (butlast p) \<Longrightarrow>
   lookup (store p v t) (p @ r) = (case v of Some m \<Rightarrow> lookup m r | None \<Rightarrow> None)"
proof (induction p v t rule: store.induct)
  case (2 x v es)
  then show ?case by (cases v) (simp_all add: update_conv' delete_conv')
next
  case (3 x y ys v es)
  then show ?case
    by (cases "map_of es x") (simp_all add: is_dir_def update_conv')
qed (auto simp: is_dir_def split: if_splits)

lemma mkdir_p_is_dir: "is_dir t p \<Longrightarrow> mkdir_p p t = Inr t"
proof (induction p t rule: mkdir_p.induct)
  case (3 x xs es)
  then show ?case
    by (cases "map_of es x") (simp_all add: is_dir_def update_triv)
qed (simp_all add: is_dir_def)


lemma mkdir_p_other:
  "mkdir_p p t = Inr t' \<Longrightarrow> \<not> prefix q p \<Longrightarrow> lookup t' q = lookup t q"
proof (induction p t arbitrary: t' q rule: mkdir_p.induct)
  case (3 x xs es)
  then obtain z zs where q: "q = z # zs" by (cases q) auto
  show ?case
  proof (cases "map_of es x")
    case None
    with 3(3) obtain c where c: "mkdir_p xs (Dir []) = Inr c" and t': "t' = Dir (AList.update x c es)"
      by (auto split: sum.splits)
    show ?thesis
    proof (cases "z = x")
      case True
      with 3(4) q have np: "\<not> prefix zs xs" by simp
      then have "zs \<noteq> []" by auto
      then have "lookup (Dir []) zs = None" by (cases zs) simp_all
      with 3(1)[OF None c np] show ?thesis using None q t' True by (simp add: update_conv')
    next
      case False
      then show ?thesis using q t' by (simp add: update_conv')
    qed
  next
    case (Some d)
    with 3(3) obtain c where c: "mkdir_p xs d = Inr c" and t': "t' = Dir (AList.update x c es)"
      by (auto split: sum.splits)
    show ?thesis
    proof (cases "z = x")
      case True
      with 3(4) q have np: "\<not> prefix zs xs" by simp
      from 3(2)[OF Some c np] show ?thesis using Some q t' True by (simp add: update_conv')
    next
      case False
      then show ?thesis using q t' by (simp add: update_conv')
    qed
  qed
qed auto

lemma mkdir_p_prefix_is_dir:
  "mkdir_p p t = Inr t' \<Longrightarrow> prefix q p \<Longrightarrow> is_dir t' q"
proof (induction p t arbitrary: t' q rule: mkdir_p.induct)
  case (1 es) then show ?case by (auto simp: is_dir_def)
next
  case (3 x xs es)
  show ?case
  proof (cases q)
    case Nil
    with 3(3) show ?thesis by (auto simp: is_dir_def split: option.splits sum.splits)
  next
    case (Cons z zs)
    with 3(4) have zx: "z = x" and pz: "prefix zs xs" by auto
    show ?thesis
    proof (cases "map_of es x")
      case None
      with 3(3) obtain c where c: "mkdir_p xs (Dir []) = Inr c" and t': "t' = Dir (AList.update x c es)"
        by (auto split: sum.splits)
      from 3(1)[OF None c pz] show ?thesis using Cons zx t' by (simp add: is_dir_def update_conv')
    next
      case (Some d)
      with 3(3) obtain c where c: "mkdir_p xs d = Inr c" and t': "t' = Dir (AList.update x c es)"
        by (auto split: sum.splits)
      from 3(2)[OF Some c pz] show ?thesis using Cons zx t' by (simp add: is_dir_def update_conv')
    qed
  qed
qed auto

lemma touches_only_refl: "touches_only bd N f f"
  by (simp add: touches_only_def)

lemma touches_only_trans:
  assumes "touches_only bd N f f'" and "touches_only bd N f' f''"
  shows "touches_only bd N f f''"
  unfolding touches_only_def
proof (intro conjI allI impI)
  fix q assume "\<not> prefix bd q \<and> \<not> prefix q bd"
  with assms show "lookup f'' q = lookup f q" unfolding touches_only_def by metis
next
  fix n r assume "n \<notin> N"
  with assms show "lookup f'' (bd @ n # r) = lookup f (bd @ n # r)"
    unfolding touches_only_def by metis
next
  fix q assume "prefix q bd" "is_dir f q"
  with assms show "is_dir f'' q" unfolding touches_only_def by blast
qed

lemma touches_only_mono:
  "touches_only bd N f f' \<Longrightarrow> N \<subseteq> M \<Longrightarrow> touches_only bd M f f'"
  unfolding touches_only_def by blast

lemma not_prefix_below: "\<not> prefix bd q \<Longrightarrow> \<not> prefix (bd @ r) q"
  using append_prefixD by blast

lemma not_prefix_of_below:
  "\<not> prefix bd q \<Longrightarrow> \<not> prefix q bd \<Longrightarrow> \<not> prefix q (bd @ r)"
  using prefix_same_cases [of q "bd @ r" bd] by auto

lemma touches_only_store:
  "n \<in> N \<Longrightarrow> touches_only bd N f (store (bd @ n # r) v f)"
  unfolding touches_only_def
proof (intro conjI allI impI)
  fix q assume q: "\<not> prefix bd q \<and> \<not> prefix q bd"
  have "\<not> prefix (bd @ n # r) q"
    using q by (simp add: not_prefix_below)
  moreover have "\<not> prefix q (bd @ n # r)"
    using q by (simp add: not_prefix_of_below)
  ultimately show "lookup (store (bd @ n # r) v f) q = lookup f q"
    by (rule lookup_store_other)
next
  fix n' r' assume "n \<in> N" "n' \<notin> N"
  then have "n' \<noteq> n" by auto
  then have "\<not> prefix (bd @ n # r) (bd @ n' # r')" "\<not> prefix (bd @ n' # r') (bd @ n # r)"
    by simp_all
  then show "lookup (store (bd @ n # r) v f) (bd @ n' # r') = lookup f (bd @ n' # r')"
    by (rule lookup_store_other)
next
  fix q assume "prefix q bd" "is_dir f q"
  then have "prefix q (bd @ n # r)" by simp
  moreover have "q \<noteq> bd @ n # r"
  proof
    assume "q = bd @ n # r"
    with \<open>prefix q bd\<close> show False by simp
  qed
  ultimately have "strict_prefix q (bd @ n # r)" by (simp add: strict_prefix_def)
  with \<open>is_dir f q\<close> show "is_dir (store (bd @ n # r) v f) q"
    by (simp add: is_dir_store_above)
qed

lemma touches_only_mkdir_p:
  assumes "mkdir_p (bd @ n # r) f = Inr f'" and "n \<in> N"
  shows "touches_only bd N f f'"
  unfolding touches_only_def
proof (intro conjI allI impI)
  fix q assume q: "\<not> prefix bd q \<and> \<not> prefix q bd"
  have "\<not> prefix q (bd @ n # r)"
    using q by (simp add: not_prefix_of_below)
  with assms(1) show "lookup f' q = lookup f q" by (rule mkdir_p_other)
next
  fix n' r' assume "n' \<notin> N"
  with assms have "\<not> prefix (bd @ n' # r') (bd @ n # r)" by auto
  with assms(1) show "lookup f' (bd @ n' # r') = lookup f (bd @ n' # r')" by (rule mkdir_p_other)
next
  fix q assume "prefix q bd"
  then have "prefix q (bd @ n # r)" by simp
  with assms(1) show "is_dir f' q" by (rule mkdir_p_prefix_is_dir)
qed

lemma below_append: "below bd N p \<Longrightarrow> below bd N (p @ r)"
  by (auto simp: below_def)

lemma below_child: "n \<in> N \<Longrightarrow> below bd N (bd @ [n])"
  by (auto simp: below_def)

lemma below_butlast: "below bd N p \<Longrightarrow> butlast p = bd \<or> below bd N (butlast p)"
proof -
  assume "below bd N p"
  then obtain n r where n: "n \<in> N" and p: "p = bd @ n # r" by (auto simp: below_def)
  show ?thesis
  proof (cases "r = []")
    case True with p show ?thesis by simp
  next
    case False
    with p have "butlast p = bd @ n # butlast r" by (simp add: butlast_append)
    with n show ?thesis by (auto simp: below_def)
  qed
qed

lemma touches_only_store_below: "below bd N p \<Longrightarrow> touches_only bd N f (store p v f)"
  by (auto simp: below_def touches_only_store)

lemma touches_only_mkdir_p_self:
  assumes "mkdir_p bd f = Inr f'"
  shows "touches_only bd N f f'"
  unfolding touches_only_def
proof (intro conjI allI impI)
  fix q assume "\<not> prefix bd q \<and> \<not> prefix q bd"
  then have "\<not> prefix q bd" by simp
  with assms show "lookup f' q = lookup f q" by (rule mkdir_p_other)
next
  fix n r
  have "\<not> prefix (bd @ n # r) bd" by simp
  with assms show "lookup f' (bd @ n # r) = lookup f (bd @ n # r)" by (rule mkdir_p_other)
next
  fix q assume "prefix q bd"
  with assms show "is_dir f' q" by (rule mkdir_p_prefix_is_dir)
qed

lemma touches_only_mkdir_p_below:
  "mkdir_p p f = Inr f' \<Longrightarrow> p = bd \<or> below bd N p \<Longrightarrow> touches_only bd N f f'"
  by (auto simp: below_def touches_only_mkdir_p touches_only_mkdir_p_self)

lemma touches_only_write_tree:
  assumes "below bd N dst"
  shows "touches_only bd N f (snd (write_tree stop n dst f))"
proof (cases "mkdir_p (butlast dst) f")
  case (Inl e)
  then show ?thesis by (simp add: write_tree_def touches_only_refl)
next
  case (Inr f1)
  from assms have "butlast dst = bd \<or> below bd N (butlast dst)" by (rule below_butlast)
  with Inr have 1: "touches_only bd N f f1" by (rule touches_only_mkdir_p_below)
  obtain bad m where o: "overlay stop n (lookup f1 dst) = (bad, m)" by (cases "overlay stop n (lookup f1 dst)")
  from assms have "touches_only bd N f1 (store dst (Some m) f1)" by (rule touches_only_store_below)
  with 1 have "touches_only bd N f (store dst (Some m) f1)" by (rule touches_only_trans)
  with Inr o show ?thesis by (simp add: write_tree_def)
qed

lemma touches_only_copytree:
  assumes "below bd N dst"
  shows "touches_only bd N f (snd (copytree E ok src dst f))"
  using touches_only_write_tree [OF assms] touches_only_refl
  by (auto simp: copytree_def split: option.splits node.splits prod.splits)

lemma touches_only_copy2:
  assumes "below bd N dst"
  shows "touches_only bd N f (snd (copy2 E src dst f))"
proof -
  have "below bd N (dst @ [name src])" using assms by (rule below_append)
  then show ?thesis
    using assms touches_only_refl
    by (auto simp: copy2_def Let_def touches_only_store_below split: option.splits prod.splits)
qed

lemma touches_only_write_file:
  "below bd N p \<Longrightarrow> write_file p n f = Inr f' \<Longrightarrow> touches_only bd N f f'"
  by (auto simp: write_file_def touches_only_store_below split: if_splits)

lemma touches_only_rmtree:
  "below bd N p \<Longrightarrow> rmtree p f = Inr f' \<Longrightarrow> touches_only bd N f f'"
  by (auto simp: rmtree_def touches_only_store_below split: if_splits option.splits)

lemma touches_only_unlink:
  "below bd N p \<Longrightarrow> unlink p f = Inr f' \<Longrightarrow> touches_only bd N f f'"
  by (auto simp: unlink_def touches_only_store_below split: if_splits option.splits)

lemma touches_only_tar_create:
  assumes "below bd N archive"
  shows "touches_only bd N f (snd (tar_create archive src arcname f))"
proof (cases "write_file archive (TarGzFile arcname (Dir [])) f")
  case (Inl e)
  then show ?thesis by (simp add: tar_create_def touches_only_refl)
next
  case (Inr f1)
  with assms have 1: "touches_only bd N f f1" by (rule touches_only_write_file)
  show ?thesis
  proof (cases "lookup f1 src")
    case None
    with Inr 1 show ?thesis by (simp add: tar_create_def)
  next
    case (Some n)
    from assms have "touches_only bd N f1 (store archive (Some (TarGzFile arcname n)) f1)"
      by (rule touches_only_store_below)
    with 1 have "touches_only bd N f (store archive (Some (TarGzFile arcname n)) f1)"
      by (rule touches_only_trans)
    with Inr Some show ?thesis by (simp add: tar_create_def)
  qed
qed

lemma touches_only_backup_path:
  assumes "below bd N sdir"
  shows "touches_only bd N f (snd (backup_path E sdir service p (res, f)))"
proof -
  have 1: "touches_only bd N f (snd (copytree E True p (sdir @ [name p]) f))"
    using assms by (intro touches_only_copytree below_append)
  have 2: "touches_only bd N f (snd (copy2 E p sdir f))"
    using assms by (rule touches_only_copy2)
  show ?thesis
    using 1 2 touches_only_refl [of bd N f]
    by (auto simp: backup_path_def split: prod.splits option.splits)
qed

lemma touches_only_backup_paths:
  assumes "below bd N sdir"
  shows "touches_only bd N (snd st) (snd (backup_paths E sdir service ps st))"
proof (induction ps arbitrary: st)
  case Nil
  show ?case by (simp add: touches_only_refl)
next
  case (Cons p ps)
  obtain res f where st: "st = (res, f)" by (cases st)
  have "touches_only bd N f (snd (backup_path E sdir service p (res, f)))"
    using assms by (rule touches_only_backup_path)
  moreover note Cons [of "backup_path E sdir service p (res, f)"]
  ultimately show ?case using st by (auto intro: touches_only_trans)
qed

lemma touches_only_backup_services:
  assumes "below bd N cdir"
  shows "touches_only bd N (snd st) (snd (snd (backup_services E cdir cfg st)))"
proof (induction cfg arbitrary: st)
  case Nil
  show ?case by (simp add: touches_only_refl)
next
  case (Cons sp cfg)
  obtain service paths where sp: "sp = (service, paths)" by (cases sp)
  obtain res f where st: "st = (res, f)" by (cases st)
  have b: "below bd N (cdir @ [service])" using assms by (rule below_append)
  show ?case
  proof (cases "mkdir_p (cdir @ [service]) f")
    case (Inl e)
    then show ?thesis using sp st by (simp add: touches_only_refl)
  next
    case (Inr f1)
    from Inr b have 1: "touches_only bd N f f1" by (auto intro: touches_only_mkdir_p_below)
    have 2: "touches_only bd N f1 (snd (backup_paths E (cdir @ [service]) service paths (res, f1)))"
      using touches_only_backup_paths [OF b, of "(res, f1)"] by simp
    note 3 = Cons [of "backup_paths E (cdir @ [service]) service paths (res, f1)"]
    from 1 2 3 show ?thesis using sp st Inr by (auto intro: touches_only_trans)
  qed
qed

lemma touches_only_backup_configurations:
  "touches_only (backup_dir self) {''config_'' @ T, config_archive_name T}
     (fs w) (fs (snd (backup_configurations E self T w)))"
proof -
  let ?bd = "backup_dir self" and ?N = "{''config_'' @ T, config_archive_name T}"
  let ?cdir = "backup_dir self @ [''config_'' @ T]"
  have bc: "below ?bd ?N ?cdir" by (simp add: below_child)
  have ba: "below ?bd ?N (?bd @ [config_archive_name T])" by (simp add: below_child)
  show ?thesis
  proof (cases "mkdir_p ?cdir (fs w)")
    case (Inl e)
    then show ?thesis by (simp add: backup_configurations_def touches_only_refl)
  next
    case (Inr f1)
    with bc have 1: "touches_only ?bd ?N (fs w) f1" by (auto intro: touches_only_mkdir_p_below)
    obtain r res f2 where s: "backup_services E ?cdir (config_paths self) ([], f1) = (r, res, f2)"
      by (cases "backup_services E ?cdir (config_paths self) ([], f1)")
    have "touches_only ?bd ?N f1 f2"
      using touches_only_backup_services [OF bc, of "([], f1)" E "config_paths self"] s by simp
    with 1 have 2: "touches_only ?bd ?N (fs w) f2" by (rule touches_only_trans)
    show ?thesis
    proof (cases r)
      case (Some e)
      with Inr s 2 show ?thesis by (simp add: backup_configurations_def)
    next
      case None
      obtain r3 f3 where t: "tar_create (?bd @ [config_archive_name T]) ?cdir (''config_'' @ T) f2 = (r3, f3)"
        by (cases "tar_create (?bd @ [config_archive_name T]) ?cdir (''config_'' @ T) f2")
      have "touches_only ?bd ?N f2 f3"
        using touches_only_tar_create [OF ba, of f2 ?cdir "''config_'' @ T"] t by simp
      with 2 have 3: "touches_only ?bd ?N (fs w) f3" by (rule touches_only_trans)
      show ?thesis
      proof (cases r3)
        case (Some e)
        with Inr s None t 3 show ?thesis by (simp add: backup_configurations_def)
      next
        case None': None
        show ?thesis
        proof (cases "rmtree ?cdir f3")
          case (Inl e)
          with Inr s None t None' 3 show ?thesis by (simp add: backup_configurations_def)
        next
          case Inr4: (Inr f4)
          with bc have "touches_only ?bd ?N f3 f4" by (auto intro: touches_only_rmtree)
          with 3 have "touches_only ?bd ?N (fs w) f4" by (rule touches_only_trans)
          with Inr s None t None' Inr4 show ?thesis by (simp add: backup_configurations_def)
        qed
      qed
    qed
  qed
qed

lemma cmds_backup_configurations:
  "cmds (snd (backup_configurations E self T w)) = cmds w"
  by (simp add: backup_configurations_def Let_def split: sum.splits prod.splits option.splits)

lemma fs_subprocess_run [simp]: "fs (snd (subprocess_run E cmd w)) = fs w"
  by (simp add: subprocess_run_def)

lemma step_store:
  "touches_only bd N f f1 \<Longrightarrow> below bd N p \<Longrightarrow> touches_only bd N f (store p v f1)"
  using touches_only_store_below touches_only_trans by blast

lemma step_write_file:
  "touches_only bd N f f1 \<Longrightarrow> below bd N p \<Longrightarrow> write_file p n f1 = Inr f2 \<Longrightarrow>
   touches_only bd N f f2"
  using touches_only_write_file touches_only_trans by blast

lemma step_unlink:
  "touches_only bd N f f1 \<Longrightarrow> below bd N p \<Longrightarrow> unlink p f1 = Inr f2 \<Longrightarrow>
   touches_only bd N f f2"
  using touches_only_unlink touches_only_trans by blast

lemma step_rmtree:
  "touches_only bd N f f1 \<Longrightarrow> below bd N p \<Longrightarrow> rmtree p f1 = Inr f2 \<Longrightarrow>
   touches_only bd N f f2"
  using touches_only_rmtree touches_only_trans by blast

lemma step_mkdir_p:
  "touches_only bd N f f1 \<Longrightarrow> below bd N p \<Longrightarrow> mkdir_p p f1 = Inr f2 \<Longrightarrow>
   touches_only bd N f f2"
  using touches_only_mkdir_p_below touches_only_trans by blast

lemma step_tar_create:
  "touches_only bd N f f1 \<Longrightarrow> below bd N p \<Longrightarrow> tar_create p src arc f1 = (r, f2) \<Longrightarrow>
   touches_only bd N f f2"
  using touches_only_tar_create [of bd N p f1 src arc] touches_only_trans by fastforce

lemma step_copytree:
  "touches_only bd N f f1 \<Longrightarrow> below bd N dst \<Longrightarrow> copytree E ok src dst f1 = (r, f2) \<Longrightarrow>
   touches_only bd N f f2"
  using touches_only_copytree [of bd N dst f1 E ok src] touches_only_trans by fastforce

lemma touches_only_dump_database:
  assumes "below bd N ddir"
  shows "touches_only bd N (fs w) (fs (snd (dump_database E self ddir T database w)))"
proof -
  let ?sql = "ddir @ [database @ ''_'' @ T @ ''.sql'']"
  let ?gz = "ddir @ [database @ ''_'' @ T @ ''.sql.gz'']"
  have bs: "below bd N ?sql" and bg: "below bd N ?gz"
    using assms by (auto intro: below_append)
  note r = touches_only_refl [of bd N "fs w"]
  show ?thesis
  proof (cases "write_file ?sql (RawFile []) (fs w)")
    case (Inl e)
    then show ?thesis by (simp add: dump_database_def touches_only_refl)
  next
    case (Inr f1)
    with r bs have 1: "touches_only bd N (fs w) f1" by (rule step_write_file)
    obtain pr w2 where p: "subprocess_run E (mysqldump_cmd self database) (w\<lparr>fs := f1\<rparr>) = (pr, w2)"
      by (cases "subprocess_run E (mysqldump_cmd self database) (w\<lparr>fs := f1\<rparr>)")
    then have w2: "fs w2 = f1" by (auto simp: subprocess_run_def)
    show ?thesis
    proof (cases pr)
      case (Raised e)
      with Inr p 1 w2 show ?thesis by (simp add: dump_database_def)
    next
      case (Exited rc out err)
      let ?f2 = "store ?sql (Some (RawFile out)) (fs w2)"
      from 1 bs w2 have 2: "touches_only bd N (fs w) ?f2" by (simp add: step_store)
      show ?thesis
      proof (cases "rc = 0")
        case False
        with Inr p Exited 2 show ?thesis by (simp add: dump_database_def)
      next
        case True
        show ?thesis
        proof (cases "write_file ?gz (GzFile out) ?f2")
          case (Inl e)
          with Inr p Exited True 2 show ?thesis by (simp add: dump_database_def)
        next
          case Inr3: (Inr f3)
          with 2 bg have 3: "touches_only bd N (fs w) f3" by (rule step_write_file)
          show ?thesis
          proof (cases "unlink ?sql f3")
            case (Inl e)
            with Inr p Exited True Inr3 3 show ?thesis by (simp add: dump_database_def)
          next
            case Inr4: (Inr f4)
            with 3 bs have "touches_only bd N (fs w) f4" by (rule step_unlink)
            with Inr p Exited True Inr3 Inr4 show ?thesis by (simp add: dump_database_def)
          qed
        qed
      qed
    qed
  qed
qed

lemma touches_only_dump_databases:
  assumes "below bd N ddir"
  shows "touches_only bd N (fs (snd st)) (fs (snd (dump_databases E self ddir T dbs st)))"
proof (induction dbs arbitrary: st)
  case Nil
  show ?case by (simp add: touches_only_refl)
next
  case (Cons database dbs)
  obtain res w where st: "st = (res, w)" by (cases st)
  obtain outcome w' where d: "dump_database E self ddir T database w = (outcome, w')"
    by (cases "dump_database E self ddir T database w")
  have "touches_only bd N (fs w) (fs w')"
    using touches_only_dump_database [OF assms, of w E self T database] d by simp
  moreover note Cons [of "(AList.update database outcome res, w')"]
  ultimately show ?case using st d by (auto intro: touches_only_trans)
qed

lemma touches_only_galera_cluster_info:
  assumes "below bd N ddir"
  shows "touches_only bd N (fs w) (fs (snd (galera_cluster_info E ddir T w)))"
proof -
  let ?file = "ddir @ [''galera_cluster_info_'' @ T @ ''.txt'']"
  have b: "below bd N ?file" using assms by (rule below_append)
  note r = touches_only_refl [of bd N "fs w"]
  show ?thesis
  proof (cases "write_file ?file (RawFile []) (fs w)")
    case (Inl e)
    then show ?thesis by (simp add: galera_cluster_info_def touches_only_refl)
  next
    case (Inr f1)
    with r b have 1: "touches_only bd N (fs w) f1" by (rule step_write_file)
    obtain pr w2 where p: "subprocess_run E galera_cmd (w\<lparr>fs := f1\<rparr>) = (pr, w2)"
      by (cases "subprocess_run E galera_cmd (w\<lparr>fs := f1\<rparr>)")
    then have w2: "fs w2 = f1" by (auto simp: subprocess_run_def)
    show ?thesis
    proof (cases pr)
      case (Raised e)
      with Inr p 1 w2 show ?thesis by (simp add: galera_cluster_info_def)
    next
      case (Exited rc out err)
      from 1 b w2 have "touches_only bd N (fs w) (store ?file (Some (RawFile out)) (fs w2))"
        by (simp add: step_store)
      with Inr p Exited show ?thesis by (simp add: galera_cluster_info_def)
    qed
  qed
qed

lemma touches_only_backup_databases:
  "touches_only (backup_dir self) {''database_'' @ T, database_archive_name T}
     (fs w) (fs (snd (backup_databases E self T w)))"
proof -
  let ?bd = "backup_dir self" and ?N = "{''database_'' @ T, database_archive_name T}"
  let ?ddir = "backup_dir self @ [''database_'' @ T]"
  let ?arch = "backup_dir self @ [database_archive_name T]"
  have bc: "below ?bd ?N ?ddir" and ba: "below ?bd ?N ?arch" by (simp_all add: below_child)
  note r = touches_only_refl [of ?bd ?N "fs w"]
  show ?thesis
  proof (cases "mkdir_p ?ddir (fs w)")
    case (Inl e)
    then show ?thesis by (simp add: backup_databases_def touches_only_refl)
  next
    case (Inr f1)
    with r bc have 1: "touches_only ?bd ?N (fs w) f1" by (rule step_mkdir_p)
    obtain pr w2 where p: "subprocess_run E is_active_cmd (w\<lparr>fs := f1\<rparr>) = (pr, w2)"
      by (cases "subprocess_run E is_active_cmd (w\<lparr>fs := f1\<rparr>)")
    then have w2: "fs w2 = f1" by (auto simp: subprocess_run_def)
    show ?thesis
    proof (cases pr)
      case (Raised e)
      with Inr p 1 w2 show ?thesis by (simp add: backup_databases_def)
    next
      case (Exited rc out err)
      show ?thesis
      proof (cases "rc = 0")
        case False
        with Inr p Exited 1 w2 show ?thesis by (simp add: backup_databases_def)
      next
        case True
        obtain res w3 where d: "dump_databases E self ?ddir T (databases self) ([], w2) = (res, w3)"
          by (cases "dump_databases E self ?ddir T (databases self) ([], w2)")
        have "touches_only ?bd ?N (fs w2) (fs w3)"
          using touches_only_dump_databases [OF bc, of "([], w2)" E self T "databases self"] d by simp
        with 1 w2 have 3: "touches_only ?bd ?N (fs w) (fs w3)" by (auto intro: touches_only_trans)
        obtain outcome w4 where g: "galera_cluster_info E ?ddir T w3 = (outcome, w4)"
          by (cases "galera_cluster_info E ?ddir T w3")
        have "touches_only ?bd ?N (fs w3) (fs w4)"
          using touches_only_galera_cluster_info [OF bc, of w3 E T] g by simp
        with 3 have 4: "touches_only ?bd ?N (fs w) (fs w4)" by (rule touches_only_trans)
        obtain r5 f5 where t: "tar_create ?arch ?ddir (''database_'' @ T) (fs w4) = (r5, f5)"
          by (cases "tar_create ?arch ?ddir (''database_'' @ T) (fs w4)")
        with 4 ba have 5: "touches_only ?bd ?N (fs w) f5" by (rule step_tar_create)
        show ?thesis
        proof (cases r5)
          case (Some e)
          with Inr p Exited True d g t 5 show ?thesis by (simp add: backup_databases_def)
        next
          case None
          show ?thesis
          proof (cases "rmtree ?ddir f5")
            case (Inl e)
            with Inr p Exited True d g t None 5 show ?thesis by (simp add: backup_databases_def)
          next
            case Inr6: (Inr f6)
            with 5 bc have "touches_only ?bd ?N (fs w) f6" by (rule step_rmtree)
            with Inr p Exited True d g t None Inr6 show ?thesis by (simp add: backup_databases_def)
          qed
        qed
      qed
    qed
  qed
qed

lemma touches_only_copy_volumes:
  assumes "below bd N mdir"
  shows "touches_only bd N (snd st) (snd (snd (copy_volumes E mdir kind vols st)))"
proof (induction vols arbitrary: st)
  case Nil
  show ?case by (simp add: touches_only_refl)
next
  case (Cons v vols)
  obtain res f where st: "st = (res, f)" by (cases st)
  obtain r f' where c: "copytree E True v (mdir @ [name v]) f = (r, f')"
    by (cases "copytree E True v (mdir @ [name v]) f")
  have b: "below bd N (mdir @ [name v])" using assms by (rule below_append)
  from touches_only_refl b c have 1: "touches_only bd N f f'" by (rule step_copytree)
  show ?case
  proof (cases r)
    case (Some e)
    with st c 1 show ?thesis by simp
  next
    case None
    note Cons [of "(AList.update (kind @ ''_volume_'' @ name v) ''success'' res, f')"]
    with 1 st c None show ?thesis by (auto intro: touches_only_trans)
  qed
qed

lemma touches_only_backup_volumes:
  assumes "below bd N mdir"
  shows "touches_only bd N (snd st) (snd (backup_volumes E mdir kind st))"
proof -
  obtain res f where st: "st = (res, f)" by (cases st)
  let ?c = "copy_volumes E mdir kind (glob f docker_volumes (''*'' @ kind @ ''*'')) (res, f)"
  obtain r res' f' where c: "?c = (r, res', f')" by (cases ?c)
  have "touches_only bd N (snd (res, f)) (snd (snd ?c))"
    using assms by (rule touches_only_copy_volumes)
  with c have "touches_only bd N f f'" by simp
  with st c show ?thesis
    by (cases r) (simp_all add: backup_volumes_def touches_only_refl)
qed

lemma touches_only_export_dashboards:
  assumes "below bd N mdir"
  shows "touches_only bd N (snd st) (snd (export_dashboards E mdir st))"
proof -
  obtain res f where st: "st = (res, f)" by (cases st)
  have bg: "below bd N (mdir @ [''grafana_export''])" using assms by (rule below_append)
  then have bd': "below bd N ((mdir @ [''grafana_export'']) @ [''dashboards''])" by (rule below_append)
  show ?thesis
  proof (cases "mkdir_p (mdir @ [''grafana_export'']) f")
    case (Inl e)
    with st show ?thesis by (simp add: export_dashboards_def touches_only_refl)
  next
    case (Inr f1)
    with touches_only_refl bg have 1: "touches_only bd N f f1" by (rule step_mkdir_p)
    obtain r f2 where c: "copytree E True dashboard_source ((mdir @ [''grafana_export'']) @ [''dashboards'']) f1 = (r, f2)"
      by (cases "copytree E True dashboard_source ((mdir @ [''grafana_export'']) @ [''dashboards'']) f1")
    with 1 bd' have "touches_only bd N f f2" by (rule step_copytree)
    with 1 st Inr c show ?thesis
      by (cases r) (simp_all add: export_dashboards_def)
  qed
qed

lemma touches_only_backup_monitoring_data:
  "touches_only (backup_dir self) {''monitoring_'' @ T, monitoring_archive_name T}
     (fs w) (fs (snd (backup_monitoring_data E self T w)))"
proof -
  let ?bd = "backup_dir self" and ?N = "{''monitoring_'' @ T, monitoring_archive_name T}"
  let ?mdir = "backup_dir self @ [''monitoring_'' @ T]"
  let ?arch = "backup_dir self @ [monitoring_archive_name T]"
  have bc: "below ?bd ?N ?mdir" and ba: "below ?bd ?N ?arch" by (simp_all add: below_child)
  show ?thesis
  proof (cases "mkdir_p ?mdir (fs w)")
    case (Inl e)
    then show ?thesis by (simp add: backup_monitoring_data_def touches_only_refl)
  next
    case (Inr f1)
    with touches_only_refl bc have 1: "touches_only ?bd ?N (fs w) f1" by (rule step_mkdir_p)
    let ?s1 = "backup_volumes E ?mdir ''prometheus'' ([], f1)"
    let ?s2 = "backup_volumes E ?mdir ''grafana'' ?s1"
    let ?s3 = "export_dashboards E ?mdir ?s2"
    have "touches_only ?bd ?N f1 (snd ?s1)"
      using touches_only_backup_volumes [OF bc, of "([], f1)"] by simp
    with 1 have "touches_only ?bd ?N (fs w) (snd ?s1)" by (rule touches_only_trans)
    then have "touches_only ?bd ?N (fs w) (snd ?s2)"
      using touches_only_backup_volumes [OF bc, of ?s1] by (rule touches_only_trans)
    then have 2: "touches_only ?bd ?N (fs w) (snd ?s3)"
      using touches_only_export_dashboards [OF bc, of ?s2] by (rule touches_only_trans)
    obtain res f2 where s3: "?s3 = (res, f2)" by (cases ?s3)
    with 2 have 2: "touches_only ?bd ?N (fs w) f2" by simp
    obtain r3 f3 where t: "tar_create ?arch ?mdir (''monitoring_'' @ T) f2 = (r3, f3)"
      by (cases "tar_create ?arch ?mdir (''monitoring_'' @ T) f2")
    with 2 ba have 3: "touches_only ?bd ?N (fs w) f3" by (rule step_tar_create)
    show ?thesis
    proof (cases r3)
      case (Some e)
      with Inr s3 t 3 show ?thesis by (simp add: backup_monitoring_data_def)
    next
      case None
      show ?thesis
      proof (cases "rmtree ?mdir f3")
        case (Inl e)
        with Inr s3 t None 3 show ?thesis by (simp add: backup_monitoring_data_def)
      next
        case Inr4: (Inr f4)
        with 3 bc have "touches_only ?bd ?N (fs w) f4" by (rule step_rmtree)
        with Inr s3 t None Inr4 show ?thesis by (simp add: backup_monitoring_data_def)
      qed
    qed
  qed
qed

lemma fs_attempt [simp]: "snd (attempt r) = snd r"
  by (cases r) (auto simp: attempt_def split: sum.splits)

lemma touches_only_components:
  "touches_only (backup_dir self) (backup_names T) (fs w)
     (fs (snd (backup_monitoring_data E self T
        (snd (backup_databases E self T (snd (backup_configurations E self T w)))))))"
proof -
  let ?w1 = "snd (backup_configurations E self T w)"
  let ?w2 = "snd (backup_databases E self T ?w1)"
  have "touches_only (backup_dir self) (backup_names T) (fs w) (fs ?w1)"
    using touches_only_backup_configurations
    by (rule touches_only_mono) (simp add: backup_names_def)
  moreover have "touches_only (backup_dir self) (backup_names T) (fs ?w1) (fs ?w2)"
    using touches_only_backup_databases
    by (rule touches_only_mono) (simp add: backup_names_def)
  moreover have "touches_only (backup_dir self) (backup_names T) (fs ?w2)
      (fs (snd (backup_monitoring_data E self T ?w2)))"
    using touches_only_backup_monitoring_data
    by (rule touches_only_mono) (simp add: backup_names_def)
  ultimately show ?thesis by (blast intro: touches_only_trans)
qed

lemma metadata_name_not_backup_name: "metadata_name T' \<notin> backup_names T"
  by (simp add: metadata_name_def backup_names_def config_archive_name_def
      database_archive_name_def monitoring_archive_name_def)

text \<open>
  Claim C2. Whenever the backup directory is there and the name of the metadata file is
  not taken by a directory, \<^verbatim>\<open>create_full_backup\<close> returns its record and has written it
  to \<^verbatim>\<open>backup_metadata_{timestamp}.json\<close>, whatever the three components did: each of
  them may have returned its outcomes or raised. The file is written to the filesystem
  the third component has left, so after all three were attempted; the record holds the
  three outcome maps; and no metadata file of another timestamp is created, changed or
  removed, so the run writes exactly one.
\<close>

theorem full_backup_writes_metadata_once:
  assumes "is_dir (fs w) (backup_dir self)"
    and "\<not> is_dir (fs w) (backup_dir self @ [metadata_name (strftime_now E)])"
  shows
    "let T = strftime_now E;
         r1 = backup_configurations E self T w;
         r2 = backup_databases E self T (snd r1);
         r3 = backup_monitoring_data E self T (snd r2);
         info = \<lparr>timestamp = T, hostname = nodename E, backup_type = ''full'',
                 results = [(''configurations'', fst (attempt r1)),
                            (''databases'', fst (attempt r2)),
                            (''monitoring'', fst (attempt r3))]\<rparr>;
         metadata_file = backup_dir self @ [metadata_name T]
     in create_full_backup E self w =
          (Inr info, (snd r3)\<lparr>fs := store metadata_file (Some (JsonFile info)) (fs (snd r3))\<rparr>)
        \<and> lookup (store metadata_file (Some (JsonFile info)) (fs (snd r3))) metadata_file
            = Some (JsonFile info)
        \<and> (\<forall>T'. T' \<noteq> T \<longrightarrow>
              lookup (store metadata_file (Some (JsonFile info)) (fs (snd r3)))
                (backup_dir self @ [metadata_name T'])
              = lookup (fs w) (backup_dir self @ [metadata_name T']))"
proof -
  let ?T = "strftime_now E"
  let ?r1 = "backup_configurations E self ?T w"
  let ?r2 = "backup_databases E self ?T (snd ?r1)"
  let ?r3 = "backup_monitoring_data E self ?T (snd ?r2)"
  let ?info = "\<lparr>timestamp = ?T, hostname = nodename E, backup_type = ''full'',
                 results = [(''configurations'', fst (attempt ?r1)),
                            (''databases'', fst (attempt ?r2)),
                            (''monitoring'', fst (attempt ?r3))]\<rparr>"
  let ?meta = "backup_dir self @ [metadata_name ?T]"
  let ?f3 = "fs (snd ?r3)"
  have t: "touches_only (backup_dir self) (backup_names ?T) (fs w) ?f3"
    by (rule touches_only_components)
  have same: "lookup ?f3 (backup_dir self @ [metadata_name T']) =
      lookup (fs w) (backup_dir self @ [metadata_name T'])" for T'
    using t metadata_name_not_backup_name [of T' ?T] unfolding touches_only_def by blast
  have d: "is_dir ?f3 (backup_dir self)"
    using t assms(1) unfolding touches_only_def by blast
  have nd: "\<not> is_dir ?f3 ?meta"
    using assms(2) same [of ?T] by (simp add: is_dir_def)
  have wf: "write_file ?meta (JsonFile ?info) ?f3 = Inr (store ?meta (Some (JsonFile ?info)) ?f3)"
    using d nd by (simp add: write_file_def)
  have 1: "create_full_backup E self w =
          (Inr ?info, (snd ?r3)\<lparr>fs := store ?meta (Some (JsonFile ?info)) ?f3\<rparr>)"
    using wf by (simp add: create_full_backup_def Let_def split_beta)
  have 2: "lookup (store ?meta (Some (JsonFile ?info)) ?f3) ?meta = Some (JsonFile ?info)"
    using lookup_store_hit [of ?meta ?f3 "Some (JsonFile ?info)" "[]"] d by simp
  have 3: "lookup (store ?meta (Some (JsonFile ?info)) ?f3) (backup_dir self @ [metadata_name T'])
      = lookup (fs w) (backup_dir self @ [metadata_name T'])" if "T' \<noteq> ?T" for T'
  proof -
    from that have "metadata_name T' \<noteq> metadata_name ?T" by (simp add: metadata_name_def)
    then have "lookup (store ?meta (Some (JsonFile ?info)) ?f3) (backup_dir self @ [metadata_name T'])
      = lookup ?f3 (backup_dir self @ [metadata_name T'])"
      by (intro lookup_store_other) simp_all
    with same show ?thesis by simp
  qed
  from 1 2 3 show ?thesis by (simp add: Let_def)
qed

text \<open>
  Claim C7. When nothing is at the path of the archive for the timestamp, either restore
  returns \<^verbatim>\<open>False\<close> and leaves the filesystem and the list of commands run as they
  were: no live path is written and no database command is run.
\<close>

theorem restore_without_archive_changes_nothing:
  "(\<not> exists (fs w) (backup_dir self @ [config_archive_name T]) \<longrightarrow>
      restore_configuration E self T service w = (False, w)) \<and>
   (\<not> exists (fs w) (backup_dir self @ [database_archive_name T]) \<longrightarrow>
      restore_database E self T database w = (False, w))"
  by (simp add: restore_configuration_def restore_database_def)

theorem restore_without_archive_changes_nothing_witness:
  "\<not> exists (fs example_world) (backup_dir example_self @ [config_archive_name ''20240101_120000'']) \<and>
   restore_configuration example_env example_self ''20240101_120000'' (Some ''kamailio'') example_world
     = (False, example_world) \<and>
   \<not> exists (fs example_world) (backup_dir example_self @ [database_archive_name ''20240101_120000'']) \<and>
   restore_database example_env example_self ''20240101_120000'' None example_world
     = (False, example_world)"
proof -
  have 1: "\<not> exists (fs example_world) (backup_dir example_self @ [config_archive_name ''20240101_120000''])"
    by (simp add: exists_def example_world_def example_fs_def example_self_def
        new_telecom_backup_def config_archive_name_def)
  have 2: "\<not> exists (fs example_world) (backup_dir example_self @ [database_archive_name ''20240101_120000''])"
    by (simp add: exists_def example_world_def example_fs_def example_self_def
        new_telecom_backup_def database_archive_name_def)
  show ?thesis
    using 1 2 restore_without_archive_changes_nothing
      [of example_world example_self "''20240101_120000''" example_env "Some ''kamailio''" None]
    by blast
qed

text \<open>
  Claim C4. Once the staging directory is made, a liveness check that exits with a code
  other than zero makes \<^verbatim>\<open>backup_databases\<close> return the one-entry map
  \<^verbatim>\<open>{"database_service": "not_running"}\<close>. The only command run is the liveness check,
  which is no dump command of any database, and the filesystem holds the staging
  directory and nothing else new.
\<close>

theorem backup_databases_service_not_active:
  assumes "mkdir_p (backup_dir self @ [''database_'' @ T]) (fs w) = Inr f1"
    and "run_proc E (cmds w) is_active_cmd = Exited rc out err"
    and "rc \<noteq> 0"
  shows "backup_databases E self T w =
           (Inr [(''database_service'', ''not_running'')],
            \<lparr>fs = f1, cmds = cmds w @ [is_active_cmd]\<rparr>)
         \<and> (\<forall>database. mysqldump_cmd self database \<noteq> is_active_cmd)"
  using assms
  by (simp add: backup_databases_def subprocess_run_def mysqldump_cmd_def is_active_cmd_def)

theorem backup_databases_service_not_active_witness:
  "mkdir_p (backup_dir example_self @ [''database_'' @ ''20240101_120000'']) (fs example_world)
     = Inr (Dir [(''etc'', Dir [(''kamailio'', Dir [(''a.cfg'', RawFile ''listen=udp'')])]),
                 (''opt'', Dir [(''backups'', Dir [(''database_20240101_120000'', Dir [])])])]) \<and>
   run_proc example_env (cmds example_world) is_active_cmd = Exited 3 ''inactive'' [] \<and>
   (3::int) \<noteq> 0 \<and>
   backup_databases example_env example_self ''20240101_120000'' example_world =
     (Inr [(''database_service'', ''not_running'')],
      \<lparr>fs = Dir [(''etc'', Dir [(''kamailio'', Dir [(''a.cfg'', RawFile ''listen=udp'')])]),
                 (''opt'', Dir [(''backups'', Dir [(''database_20240101_120000'', Dir [])])])],
       cmds = [is_active_cmd]\<rparr>)"
proof -
  have 1: "mkdir_p (backup_dir example_self @ [''database_'' @ ''20240101_120000'']) (fs example_world)
     = Inr (Dir [(''etc'', Dir [(''kamailio'', Dir [(''a.cfg'', RawFile ''listen=udp'')])]),
                 (''opt'', Dir [(''backups'', Dir [(''database_20240101_120000'', Dir [])])])])"
    by (simp add: example_self_def new_telecom_backup_def example_world_def example_fs_def)
  have 2: "run_proc example_env (cmds example_world) is_active_cmd = Exited 3 ''inactive'' []"
    by (simp add: example_env_def)
  have 3: "(3::int) \<noteq> 0" by simp
  have 4: "cmds example_world = []" by (simp add: example_world_def)
  from backup_databases_service_not_active [OF 1 2 3] 1 2 3 4 show ?thesis by simp
qed

lemmas example_defs = example_env_def example_self_def example_world_def example_fs_def
  new_telecom_backup_def default_config_paths_def

lemmas fs_op_defs = exists_def is_dir_def is_file_def mkdir_exist_ok_def write_tree_def
  copytree_def copy2_def rmtree_def unlink_def write_file_def tar_create_def extractall_def
  name_def listdir_def glob_def subprocess_run_def

lemmas archive_name_defs = config_archive_name_def database_archive_name_def
  monitoring_archive_name_def metadata_name_def

lemma fst_attempt_Inr: "fst r = Inr x \<Longrightarrow> fst (attempt r) = x"
  by (cases r) (auto simp: attempt_def)

lemma example_backup_configurations:
  "backup_configurations example_env example_self ''20240101_120000'' example_world =
     (Inr [(''kamailio_kamailio'', ''success''),
           (''freeradius_freeradius'', ''path_not_found''),
           (''mariadb_mysql'', ''path_not_found''),
           (''keepalived_keepalived'', ''path_not_found''),
           (''puppet_puppetlabs'', ''path_not_found''),
           (''monitoring_monitoring'', ''path_not_found''),
           (''ssl_certs_ssl'', ''path_not_found''),
           (''ssl_certs_ca'', ''path_not_found''),
           (''wireguard_wireguard'', ''path_not_found''),
           (''haproxy_haproxy'', ''path_not_found'')],
      \<lparr>fs = Dir [(''etc'', Dir [(''kamailio'', Dir [(''a.cfg'', RawFile ''listen=udp'')])]),
                 (''opt'',
                  Dir [(''backups'',
                        Dir [(''config_backup_20240101_120000.tar.gz'',
                              TarGzFile ''config_20240101_120000''
                                (Dir [(''kamailio'',
                                       Dir [(''kamailio'',
                                             Dir [(''a.cfg'', RawFile ''listen=udp'')])]),
                                      (''freeradius'', Dir []),
                                      (''mariadb'', Dir []),
                                      (''keepalived'', Dir []),
                                      (''puppet'', Dir []),
                                      (''monitoring'', Dir []),
                                      (''ssl_certs'', Dir []),
                                      (''wireguard'', Dir []),
                                      (''haproxy'', Dir [])]))])])],
       cmds = []\<rparr>)"
  by (simp add: example_defs fs_op_defs backup_configurations_def backup_path_def
      outcome_key_def config_archive_name_def)

theorem full_backup_writes_metadata_once_witness:
  "is_dir (fs example_world) (backup_dir example_self) \<and>
   \<not> is_dir (fs example_world)
       (backup_dir example_self @ [metadata_name (strftime_now example_env)]) \<and>
   fst (create_full_backup example_env example_self example_world) =
     Inr \<lparr>timestamp = ''20240101_120000'', hostname = ''lab1'', backup_type = ''full'',
          results =
            [(''configurations'',
              [(''kamailio_kamailio'', ''success''),
               (''freeradius_freeradius'', ''path_not_found''),
               (''mariadb_mysql'', ''path_not_found''),
               (''keepalived_keepalived'', ''path_not_found''),
               (''puppet_puppetlabs'', ''path_not_found''),
               (''monitoring_monitoring'', ''path_not_found''),
               (''ssl_certs_ssl'', ''path_not_found''),
               (''ssl_certs_ca'', ''path_not_found''),
               (''wireguard_wireguard'', ''path_not_found''),
               (''haproxy_haproxy'', ''path_not_found'')]),
             (''databases'', [(''database_service'', ''not_running'')]),
             (''monitoring'', [])]\<rparr> \<and>
   is_file (fs (snd (create_full_backup example_env example_self example_world)))
     [''opt'', ''backups'', ''backup_metadata_20240101_120000.json'']"
proof -
  have h1: "is_dir (fs example_world) (backup_dir example_self)"
    by (simp add: example_defs is_dir_def)
  have h2: "\<not> is_dir (fs example_world)
       (backup_dir example_self @ [metadata_name (strftime_now example_env)])"
    by (simp add: example_defs is_dir_def metadata_name_def)
  have T: "strftime_now example_env = ''20240101_120000''" and H: "nodename example_env = ''lab1''"
    by (simp_all add: example_env_def)
  have bd: "backup_dir example_self = [''opt'', ''backups'']"
    by (simp add: example_defs)
  note r1 = example_backup_configurations
  have r2: "backup_databases example_env example_self ''20240101_120000''
      (snd (backup_configurations example_env example_self ''20240101_120000'' example_world))
      = (Inr [(''database_service'', ''not_running'')],
         snd (backup_databases example_env example_self ''20240101_120000''
           (snd (backup_configurations example_env example_self ''20240101_120000'' example_world))))"
    unfolding r1
    by (simp add: example_defs fs_op_defs backup_databases_def is_active_cmd_def)
  have r3: "fst (backup_monitoring_data example_env example_self ''20240101_120000''
      (snd (backup_databases example_env example_self ''20240101_120000''
           (snd (backup_configurations example_env example_self ''20240101_120000'' example_world)))))
      = Inr []"
    unfolding r1
    by (simp add: example_defs fs_op_defs backup_databases_def is_active_cmd_def
        backup_monitoring_data_def backup_volumes_def export_dashboards_def docker_volumes_def
        dashboard_source_def monitoring_archive_name_def)
  have a1: "fst (attempt (backup_configurations example_env example_self ''20240101_120000'' example_world))
      = [(''kamailio_kamailio'', ''success''),
               (''freeradius_freeradius'', ''path_not_found''),
               (''mariadb_mysql'', ''path_not_found''),
               (''keepalived_keepalived'', ''path_not_found''),
               (''puppet_puppetlabs'', ''path_not_found''),
               (''monitoring_monitoring'', ''path_not_found''),
               (''ssl_certs_ssl'', ''path_not_found''),
               (''ssl_certs_ca'', ''path_not_found''),
               (''wireguard_wireguard'', ''path_not_found''),
               (''haproxy_haproxy'', ''path_not_found'')]"
    unfolding r1 by (simp add: attempt_def)
  have a2: "fst (attempt (backup_databases example_env example_self ''20240101_120000''
      (snd (backup_configurations example_env example_self ''20240101_120000'' example_world))))
      = [(''database_service'', ''not_running'')]"
    by (subst r2) (simp add: attempt_def)
  have a3: "fst (attempt (backup_monitoring_data example_env example_self ''20240101_120000''
      (snd (backup_databases example_env example_self ''20240101_120000''
           (snd (backup_configurations example_env example_self ''20240101_120000'' example_world))))))
      = []"
    using r3 by (rule fst_attempt_Inr)
  note t = full_backup_writes_metadata_once [OF h1 h2]
  have c: "fst (create_full_backup example_env example_self example_world) = Inr \<lparr>timestamp = ''20240101_120000'', hostname = ''lab1'', backup_type = ''full'',
          results =
            [(''configurations'',
              [(''kamailio_kamailio'', ''success''),
               (''freeradius_freeradius'', ''path_not_found''),
               (''mariadb_mysql'', ''path_not_found''),
               (''keepalived_keepalived'', ''path_not_found''),
               (''puppet_puppetlabs'', ''path_not_found''),
               (''monitoring_monitoring'', ''path_not_found''),
               (''ssl_certs_ssl'', ''path_not_found''),
               (''ssl_certs_ca'', ''path_not_found''),
               (''wireguard_wireguard'', ''path_not_found''),
               (''haproxy_haproxy'', ''path_not_found'')]),
             (''databases'', [(''database_service'', ''not_running'')]),
             (''monitoring'', [])]\<rparr>"
    using t by (simp add: Let_def T H a1 a2 a3)
  have f: "is_file (fs (snd (create_full_backup example_env example_self example_world)))
     [''opt'', ''backups'', ''backup_metadata_20240101_120000.json'']"
    using t by (simp add: Let_def T bd metadata_name_def is_file_def)
  from h1 h2 c f show ?thesis by blast
qed

lemma is_file_exists: "is_file f p \<Longrightarrow> exists f p \<and> \<not> is_dir f p"
  by (auto simp: is_file_def exists_def is_dir_def split: option.splits)

lemma restore_databases_prefix:
  "restores_succeed E self (fs w) db_dir T ok (cmds w) \<Longrightarrow>
   restore_databases E self db_dir T (ok @ rest) w =
   restore_databases E self db_dir T rest (w\<lparr>cmds := cmds w @ map (mysql_cmd self) ok\<rparr>)"
proof (induction ok arbitrary: w)
  case Nil
  show ?case by simp
next
  case (Cons d ok)
  let ?w1 = "w\<lparr>cmds := cmds w @ [mysql_cmd self d]\<rparr>"
  from Cons.prems have f: "is_file (fs w) (db_dir @ [d @ ''_'' @ T @ ''.sql.gz''])"
    and r: "\<exists>out err. run_proc E (cmds w) (mysql_cmd self d) = Exited 0 out err"
    and s: "restores_succeed E self (fs ?w1) db_dir T ok (cmds ?w1)"
    by (auto split: proc_result.splits)
  from f have e: "exists (fs w) (db_dir @ [d @ ''_'' @ T @ ''.sql.gz''])"
    and nd: "\<not> is_dir (fs w) (db_dir @ [d @ ''_'' @ T @ ''.sql.gz''])"
    by (auto dest: is_file_exists)
  from r e nd have "restore_databases E self db_dir T ((d # ok) @ rest) w =
      restore_databases E self db_dir T (ok @ rest) ?w1"
    by (auto simp: subprocess_run_def)
  also have "\<dots> = restore_databases E self db_dir T rest
      (?w1\<lparr>cmds := cmds ?w1 @ map (mysql_cmd self) ok\<rparr>)"
    using s by (rule Cons.IH)
  finally show ?case by simp
qed

lemma mkdir_exist_ok_is_dir: "mkdir_exist_ok p f = Inr f1 \<Longrightarrow> is_dir f1 p"
proof (cases "is_dir f p")
  case True
  assume "mkdir_exist_ok p f = Inr f1"
  with True show ?thesis by (simp add: mkdir_exist_ok_def)
next
  case False
  assume m: "mkdir_exist_ok p f = Inr f1"
  with False have p: "p \<noteq> []" "is_dir f (butlast p)" and f1: "f1 = store p (Some (Dir [])) f"
    by (auto simp: mkdir_exist_ok_def split: if_splits)
  from lookup_store_hit [OF p, of "Some (Dir [])" "[]"] f1 show ?thesis
    by (simp add: is_dir_def)
qed

lemma write_tree_keeps_parent:
  assumes "write_tree stop n (d @ [x]) f = (r, f')" and "is_dir f d"
  shows "is_dir f' d"
proof -
  from assms(2) have m: "mkdir_p (butlast (d @ [x])) f = Inr f" by (simp add: mkdir_p_is_dir)
  obtain bad k where o: "overlay stop n (lookup f (d @ [x])) = (bad, k)"
    by (cases "overlay stop n (lookup f (d @ [x]))")
  from assms(1) m o have "f' = store (d @ [x]) (Some k) f"
    by (simp add: write_tree_def)
  moreover have "strict_prefix d (d @ [x])" by (simp add: strict_prefix_def)
  ultimately show ?thesis using assms(2) by (simp add: is_dir_store_above)
qed

lemma extractall_keeps_dest:
  assumes "extractall archive dest f = (r, f')" and "is_dir f dest"
  shows "is_dir f' dest"
proof (cases "lookup f archive")
  case None
  with assms show ?thesis by (simp add: extractall_def)
next
  case (Some n)
  show ?thesis
  proof (cases n)
    case (TarGzFile arcname tree)
    with Some assms(1) have "write_tree True tree (dest @ [arcname]) f = (r, f')"
      by (simp add: extractall_def)
    then show ?thesis using assms(2) by (rule write_tree_keeps_parent)
  qed (use Some assms in \<open>simp_all add: extractall_def\<close>)
qed

lemma rmtree_dir: "is_dir f p \<Longrightarrow> p \<noteq> [] \<Longrightarrow> rmtree p f = Inr (store p None f)"
  by (auto simp: rmtree_def is_dir_def split: option.splits)

lemma restore_service_paths_all_absent:
  "\<forall>p\<in>set ps. \<not> exists f (service_dir @ [name p]) \<Longrightarrow>
   restore_service_paths E service_dir ps f = (None, f)"
  by (induction ps) simp_all

text \<open>
  Claim C6. With the database list \<^verbatim>\<open>[a, b, c]\<close>, an archive that extracts, the dumps of
  \<^verbatim>\<open>a\<close> and \<^verbatim>\<open>b\<close> in the staged tree and a restore of \<^verbatim>\<open>a\<close> that exits with zero: when
  the restore command of \<^verbatim>\<open>b\<close> exits with a code other than zero, \<^verbatim>\<open>restore_database\<close>
  returns \<^verbatim>\<open>False\<close> and the commands it has run are the restore of \<^verbatim>\<open>a\<close> and the restore
  of \<^verbatim>\<open>b\<close>, in this order and nothing after them: no command is run for \<^verbatim>\<open>c\<close>.
\<close>

theorem restore_database_stops_at_failing_database:
  assumes "databases self = [a, b, c]"
    and "exists (fs w) (backup_dir self @ [database_archive_name T])"
    and "mkdir_exist_ok (backup_dir self @ [''temp_db_restore_'' @ T]) (fs w) = Inr f1"
    and "extractall (backup_dir self @ [database_archive_name T])
           (backup_dir self @ [''temp_db_restore_'' @ T]) f1 = (None, f2)"
    and "is_file f2 (backup_dir self @
           [''temp_db_restore_'' @ T, ''database_'' @ T, a @ ''_'' @ T @ ''.sql.gz''])"
    and "is_file f2 (backup_dir self @
           [''temp_db_restore_'' @ T, ''database_'' @ T, b @ ''_'' @ T @ ''.sql.gz''])"
    and "run_proc E (cmds w) (mysql_cmd self a) = Exited 0 out_a err_a"
    and "run_proc E (cmds w @ [mysql_cmd self a]) (mysql_cmd self b) = Exited rc out_b err_b"
    and "rc \<noteq> 0"
  shows "restore_database E self T None w =
           (False, \<lparr>fs = f2, cmds = cmds w @ [mysql_cmd self a, mysql_cmd self b]\<rparr>)"
proof -
  let ?db_dir = "(backup_dir self @ [''temp_db_restore_'' @ T]) @ [''database_'' @ T]"
  let ?w2 = "w\<lparr>fs := f2\<rparr>"
  from assms(5,6) have
    a: "exists f2 (?db_dir @ [a @ ''_'' @ T @ ''.sql.gz''])"
       "\<not> is_dir f2 (?db_dir @ [a @ ''_'' @ T @ ''.sql.gz''])" and
    b: "exists f2 (?db_dir @ [b @ ''_'' @ T @ ''.sql.gz''])"
       "\<not> is_dir f2 (?db_dir @ [b @ ''_'' @ T @ ''.sql.gz''])"
    by (auto dest: is_file_exists)
  have "restore_databases E self ?db_dir T [a, b, c] ?w2 =
      (ReturnedFalse, \<lparr>fs = f2, cmds = cmds w @ [mysql_cmd self a, mysql_cmd self b]\<rparr>)"
    using a b assms(7,8,9) by (simp add: subprocess_run_def)
  then show ?thesis
    using assms(1,2,3,4) by (simp add: restore_database_def truthy_def)
qed

theorem restore_database_stops_at_failing_database_witness:
  "databases example_self = [''kamailio'', ''radius'', ''mysql''] \<and>
   exists (fs archived_world) (backup_dir example_self @ [database_archive_name ''20240101_120000'']) \<and>
   (1::int) \<noteq> 0 \<and>
   fst (restore_database radius_fails_env example_self ''20240101_120000'' None archived_world) = False \<and>
   cmds (snd (restore_database radius_fails_env example_self ''20240101_120000'' None archived_world)) =
     [[''mysql'', ''-u'', ''root'', ''kamailio''], [''mysql'', ''-u'', ''root'', ''radius'']]"
proof -
  let ?T = "''20240101_120000''"
  let ?temp = "backup_dir example_self @ [''temp_db_restore_'' @ ?T]"
  let ?arch = "backup_dir example_self @ [database_archive_name ?T]"
  obtain f1 where f1: "mkdir_exist_ok ?temp (fs archived_world) = Inr f1"
    by (simp add: example_defs fs_op_defs archived_world_def archived_fs_def)
  have f1': "f1 = store ?temp (Some (Dir [])) archived_fs"
    using f1 by (simp add: example_defs fs_op_defs archived_world_def archived_fs_def)
  obtain f2 where f2: "extractall ?arch ?temp f1 = (None, f2)"
    unfolding f1' by (simp add: example_defs fs_op_defs archived_fs_def archive_name_defs)
  have f2': "f2 = snd (extractall ?arch ?temp f1)" using f2 by simp
  have 1: "databases example_self = [''kamailio'', ''radius'', ''mysql'']"
    by (simp add: example_defs)
  have 2: "exists (fs archived_world) ?arch"
    by (simp add: example_defs fs_op_defs archived_world_def archived_fs_def archive_name_defs)
  have 5: "is_file f2 (backup_dir example_self @
           [''temp_db_restore_'' @ ?T, ''database_'' @ ?T, ''kamailio'' @ ''_'' @ ?T @ ''.sql.gz''])"
    unfolding f2' f1'
    by (simp add: example_defs fs_op_defs archived_fs_def archive_name_defs)
  have 6: "is_file f2 (backup_dir example_self @
           [''temp_db_restore_'' @ ?T, ''database_'' @ ?T, ''radius'' @ ''_'' @ ?T @ ''.sql.gz''])"
    unfolding f2' f1'
    by (simp add: example_defs fs_op_defs archived_fs_def archive_name_defs)
  have 7: "run_proc radius_fails_env (cmds archived_world) (mysql_cmd example_self ''kamailio'')
      = Exited 0 [] []"
    by (simp add: radius_fails_env_def mysql_cmd_def example_defs)
  have 8: "run_proc radius_fails_env (cmds archived_world @ [mysql_cmd example_self ''kamailio''])
      (mysql_cmd example_self ''radius'') = Exited 1 [] ''ERROR 1045''"
    by (simp add: radius_fails_env_def mysql_cmd_def example_defs)
  have 9: "(1::int) \<noteq> 0" by simp
  from restore_database_stops_at_failing_database [OF 1 2 f1 f2 5 6 7 8 9] 1 2 9
  show ?thesis
    by (simp add: mysql_cmd_def example_defs archived_world_def)
qed

text \<open>
  Claim C10. In a database restore, when the dumps before it were restored and the dump
  \<^verbatim>\<open>{db}_{timestamp}.sql.gz\<close> of the next database is not in the staged tree, the method
  returns \<^verbatim>\<open>False\<close> there: the commands run are the restores before it, none for this
  database and none for the databases after it. In a configuration restore a registered
  path that is not in the staged tree is passed over by both loops, and a restore of a
  service none of whose paths are staged returns \<^verbatim>\<open>True\<close>, having changed nothing but
  the staging directory, which it removes.
\<close>

theorem missing_dump_aborts_missing_path_is_skipped:
  "(exists (fs w) (backup_dir self @ [database_archive_name T]) \<and>
    mkdir_exist_ok (backup_dir self @ [''temp_db_restore_'' @ T]) (fs w) = Inr f1 \<and>
    extractall (backup_dir self @ [database_archive_name T])
      (backup_dir self @ [''temp_db_restore_'' @ T]) f1 = (None, f2) \<and>
    databases self = ok @ db # rest \<and>
    restores_succeed E self f2
      (backup_dir self @ [''temp_db_restore_'' @ T, ''database_'' @ T]) T ok (cmds w) \<and>
    \<not> exists f2 (backup_dir self @
        [''temp_db_restore_'' @ T, ''database_'' @ T, db @ ''_'' @ T @ ''.sql.gz''])
    \<longrightarrow> restore_database E self T None w =
          (False, \<lparr>fs = f2, cmds = cmds w @ map (mysql_cmd self) ok\<rparr>))
   \<and>
   (\<not> exists g (service_dir @ [name p])
    \<longrightarrow> restore_service_paths E service_dir (p # ps) g = restore_service_paths E service_dir ps g
        \<and> restore_all_paths E service_dir (p # ps) g = restore_all_paths E service_dir ps g)
   \<and>
   (exists (fs w) (backup_dir self @ [config_archive_name T]) \<and>
    mkdir_exist_ok (backup_dir self @ [''temp_restore_'' @ T]) (fs w) = Inr g1 \<and>
    extractall (backup_dir self @ [config_archive_name T])
      (backup_dir self @ [''temp_restore_'' @ T]) g1 = (None, g2) \<and>
    service \<noteq> [] \<and>
    exists g2 (backup_dir self @ [''temp_restore_'' @ T, ''config_'' @ T, service]) \<and>
    (\<forall>q \<in> set (dict_get (config_paths self) service).
       \<not> exists g2 (backup_dir self @ [''temp_restore_'' @ T, ''config_'' @ T, service, name q]))
    \<longrightarrow> restore_configuration E self T (Some service) w =
          (True, \<lparr>fs = store (backup_dir self @ [''temp_restore_'' @ T]) None g2, cmds = cmds w\<rparr>))"
proof (intro conjI impI)
  let ?db_dir = "(backup_dir self @ [''temp_db_restore_'' @ T]) @ [''database_'' @ T]"
  assume h: "exists (fs w) (backup_dir self @ [database_archive_name T]) \<and>
    mkdir_exist_ok (backup_dir self @ [''temp_db_restore_'' @ T]) (fs w) = Inr f1 \<and>
    extractall (backup_dir self @ [database_archive_name T])
      (backup_dir self @ [''temp_db_restore_'' @ T]) f1 = (None, f2) \<and>
    databases self = ok @ db # rest \<and>
    restores_succeed E self f2
      (backup_dir self @ [''temp_db_restore_'' @ T, ''database_'' @ T]) T ok (cmds w) \<and>
    \<not> exists f2 (backup_dir self @
        [''temp_db_restore_'' @ T, ''database_'' @ T, db @ ''_'' @ T @ ''.sql.gz''])"
  then have s: "restores_succeed E self (fs (w\<lparr>fs := f2\<rparr>)) ?db_dir T ok (cmds (w\<lparr>fs := f2\<rparr>))"
    by simp
  have "restore_databases E self ?db_dir T (ok @ db # rest) (w\<lparr>fs := f2\<rparr>) =
      restore_databases E self ?db_dir T (db # rest)
        (w\<lparr>fs := f2\<rparr>\<lparr>cmds := cmds (w\<lparr>fs := f2\<rparr>) @ map (mysql_cmd self) ok\<rparr>)"
    using s by (rule restore_databases_prefix)
  also have "\<dots> = (ReturnedFalse, \<lparr>fs = f2, cmds = cmds w @ map (mysql_cmd self) ok\<rparr>)"
    using h by simp
  finally show "restore_database E self T None w =
      (False, \<lparr>fs = f2, cmds = cmds w @ map (mysql_cmd self) ok\<rparr>)"
    using h by (simp add: restore_database_def truthy_def)
next
  assume "\<not> exists g (service_dir @ [name p])"
  then show "restore_service_paths E service_dir (p # ps) g = restore_service_paths E service_dir ps g"
    by simp
next
  assume "\<not> exists g (service_dir @ [name p])"
  then show "restore_all_paths E service_dir (p # ps) g = restore_all_paths E service_dir ps g"
    by simp
next
  let ?temp = "backup_dir self @ [''temp_restore_'' @ T]"
  let ?sdir = "(?temp @ [''config_'' @ T]) @ [service]"
  assume h: "exists (fs w) (backup_dir self @ [config_archive_name T]) \<and>
    mkdir_exist_ok ?temp (fs w) = Inr g1 \<and>
    extractall (backup_dir self @ [config_archive_name T]) ?temp g1 = (None, g2) \<and>
    service \<noteq> [] \<and>
    exists g2 (backup_dir self @ [''temp_restore_'' @ T, ''config_'' @ T, service]) \<and>
    (\<forall>q \<in> set (dict_get (config_paths self) service).
       \<not> exists g2 (backup_dir self @ [''temp_restore_'' @ T, ''config_'' @ T, service, name q]))"
  then have "is_dir g1 ?temp" by (blast intro: mkdir_exist_ok_is_dir)
  with h have "is_dir g2 ?temp" by (blast intro: extractall_keeps_dest)
  then have r: "rmtree ?temp g2 = Inr (store ?temp None g2)" by (simp add: rmtree_dir)
  from h have "\<forall>q \<in> set (dict_get (config_paths self) service). \<not> exists g2 (?sdir @ [name q])"
    by simp
  then have l: "restore_service_paths E ?sdir (dict_get (config_paths self) service) g2 = (None, g2)"
    by (rule restore_service_paths_all_absent)
  from h have e: "exists g2 ?sdir" by simp
  show "restore_configuration E self T (Some service) w =
      (True, \<lparr>fs = store ?temp None g2, cmds = cmds w\<rparr>)"
    using h r l e by (simp add: restore_configuration_def truthy_def)
qed

theorem missing_dump_aborts_missing_path_is_skipped_witness:
  "exists (fs archived_world) (backup_dir example_self @ [database_archive_name ''20240102_120000'']) \<and>
   databases example_self = [''kamailio''] @ ''radius'' # [''mysql''] \<and>
   restore_database example_env example_self ''20240102_120000'' None archived_world =
     (False,
      \<lparr>fs = snd (extractall (backup_dir example_self @ [database_archive_name ''20240102_120000''])
                  (backup_dir example_self @ [''temp_db_restore_'' @ ''20240102_120000''])
                  (store (backup_dir example_self @ [''temp_db_restore_'' @ ''20240102_120000''])
                     (Some (Dir [])) archived_fs)),
       cmds = [[''mysql'', ''-u'', ''root'', ''kamailio'']]\<rparr>) \<and>
   \<not> exists archived_fs ([''opt'', ''backups''] @ [name [''etc'', ''haproxy'']]) \<and>
   restore_service_paths example_env [''opt'', ''backups''] [[''etc'', ''haproxy'']] archived_fs
     = (None, archived_fs) \<and>
   restore_all_paths example_env [''opt'', ''backups''] [[''etc'', ''haproxy'']] archived_fs
     = (None, archived_fs) \<and>
   exists (fs archived_world) (backup_dir example_self @ [config_archive_name ''20240101_120000'']) \<and>
   fst (restore_configuration example_env example_self ''20240101_120000'' (Some ''haproxy'')
      archived_world) = True \<and>
   lookup (fs (snd (restore_configuration example_env example_self ''20240101_120000''
      (Some ''haproxy'') archived_world))) [''etc''] = lookup archived_fs [''etc'']"
proof -
  let ?T = "''20240102_120000''"
  let ?temp = "backup_dir example_self @ [''temp_db_restore_'' @ ?T]"
  let ?arch = "backup_dir example_self @ [database_archive_name ?T]"
  let ?f1 = "store ?temp (Some (Dir [])) archived_fs"
  let ?f2 = "snd (extractall ?arch ?temp ?f1)"
  have a1: "exists (fs archived_world) ?arch"
    by (simp add: example_defs fs_op_defs archived_world_def archived_fs_def archive_name_defs)
  have a2: "mkdir_exist_ok ?temp (fs archived_world) = Inr ?f1"
    by (simp add: example_defs fs_op_defs archived_world_def archived_fs_def)
  have a3: "extractall ?arch ?temp ?f1 = (None, ?f2)"
    by (simp add: example_defs fs_op_defs archived_fs_def archive_name_defs)
  have a4: "databases example_self = [''kamailio''] @ ''radius'' # [''mysql'']"
    by (simp add: example_defs)
  have a5: "restores_succeed example_env example_self ?f2
      (backup_dir example_self @ [''temp_db_restore_'' @ ?T, ''database_'' @ ?T]) ?T
      [''kamailio''] (cmds archived_world)"
    by (simp add: example_defs fs_op_defs archived_fs_def archive_name_defs
        mysql_cmd_def is_active_cmd_def)
  have a6: "\<not> exists ?f2 (backup_dir example_self @
        [''temp_db_restore_'' @ ?T, ''database_'' @ ?T, ''radius'' @ ''_'' @ ?T @ ''.sql.gz''])"
    by (simp add: example_defs fs_op_defs archived_fs_def archive_name_defs)
  note main = missing_dump_aborts_missing_path_is_skipped
  have A: "restore_database example_env example_self ?T None archived_world =
      (False, \<lparr>fs = ?f2, cmds = cmds archived_world @ map (mysql_cmd example_self) [''kamailio'']\<rparr>)"
    using main [where w = archived_world and self = example_self and T = ?T and ?f1.0 = ?f1
        and ?f2.0 = ?f2 and ok = "[''kamailio'']" and db = "''radius''" and rest = "[''mysql'']"
        and E = example_env] a1 a2 a3 a4 a5 a6
    by blast
  have b1: "\<not> exists archived_fs ([''opt'', ''backups''] @ [name [''etc'', ''haproxy'']])"
    by (simp add: fs_op_defs archived_fs_def)
  have B: "restore_service_paths example_env [''opt'', ''backups''] [[''etc'', ''haproxy'']] archived_fs
      = (None, archived_fs) \<and>
    restore_all_paths example_env [''opt'', ''backups''] [[''etc'', ''haproxy'']] archived_fs
      = (None, archived_fs)"
    using main [where g = archived_fs and service_dir = "[''opt'', ''backups'']"
        and p = "[''etc'', ''haproxy'']" and ps = "[]" and E = example_env] b1
    by simp
  let ?U = "''20240101_120000''"
  let ?ctemp = "backup_dir example_self @ [''temp_restore_'' @ ?U]"
  let ?carch = "backup_dir example_self @ [config_archive_name ?U]"
  let ?g1 = "store ?ctemp (Some (Dir [])) archived_fs"
  let ?g2 = "snd (extractall ?carch ?ctemp ?g1)"
  have c1: "exists (fs archived_world) ?carch"
    by (simp add: example_defs fs_op_defs archived_world_def archived_fs_def archive_name_defs)
  have c2: "mkdir_exist_ok ?ctemp (fs archived_world) = Inr ?g1"
    by (simp add: example_defs fs_op_defs archived_world_def archived_fs_def)
  have c3: "extractall ?carch ?ctemp ?g1 = (None, ?g2)"
    by (simp add: example_defs fs_op_defs archived_fs_def archive_name_defs)
  have c4: "''haproxy'' \<noteq> []" by simp
  have c5: "exists ?g2 (backup_dir example_self @ [''temp_restore_'' @ ?U, ''config_'' @ ?U, ''haproxy''])"
    by (simp add: example_defs fs_op_defs archived_fs_def archive_name_defs)
  have c6: "\<forall>q \<in> set (dict_get (config_paths example_self) ''haproxy'').
       \<not> exists ?g2 (backup_dir example_self @
          [''temp_restore_'' @ ?U, ''config_'' @ ?U, ''haproxy'', name q])"
    by (simp add: example_defs fs_op_defs archived_fs_def archive_name_defs dict_get_def)
  have C: "restore_configuration example_env example_self ?U (Some ''haproxy'') archived_world =
      (True, \<lparr>fs = store ?ctemp None ?g2, cmds = cmds archived_world\<rparr>)"
    using main [where w = archived_world and self = example_self and T = ?U and ?g1.0 = ?g1
        and ?g2.0 = ?g2 and service = "''haproxy''" and E = example_env] c1 c2 c3 c4 c5 c6
    by blast
  have C': "lookup (store ?ctemp None ?g2) [''etc''] = lookup archived_fs [''etc'']"
    by (simp add: example_defs fs_op_defs archived_fs_def archive_name_defs)
  from A B C C' a1 a4 b1 c1 show ?thesis
    by (simp add: mysql_cmd_def example_defs archived_world_def)
qed

text \<open>
  Claim C3 does not hold of the code. \<^verbatim>\<open>shutil.rmtree(temp_dir)\<close> stands at the end of the
  \<^verbatim>\<open>try\<close> block of both methods, so only the path that returns \<^verbatim>\<open>True\<close> reaches it. A
  configuration restore of a service that is not in the archive, and a database restore
  whose second database fails, both return \<^verbatim>\<open>False\<close> and leave the staging directory they
  have made in the backup directory.
\<close>

theorem restore_failure_leaves_staging_directory:
  "\<not> exists (fs archived_world) [''opt'', ''backups'', ''temp_restore_20240101_120000''] \<and>
   fst (restore_configuration example_env example_self ''20240101_120000'' (Some ''freeradius'')
      archived_world) = False \<and>
   is_dir (fs (snd (restore_configuration example_env example_self ''20240101_120000''
      (Some ''freeradius'') archived_world))) [''opt'', ''backups'', ''temp_restore_20240101_120000''] \<and>
   \<not> exists (fs archived_world) [''opt'', ''backups'', ''temp_db_restore_20240101_120000''] \<and>
   fst (restore_database radius_fails_env example_self ''20240101_120000'' None archived_world)
      = False \<and>
   is_dir (fs (snd (restore_database radius_fails_env example_self ''20240101_120000'' None
      archived_world))) [''opt'', ''backups'', ''temp_db_restore_20240101_120000'']"
  by (simp add: example_defs fs_op_defs archived_world_def archived_fs_def archive_name_defs
      restore_configuration_def restore_database_def truthy_def radius_fails_env_def
      mysql_cmd_def)

lemma replace_Nil [simp]: "replace old new [] = []"
  by (simp add: replace.simps)

lemma replace_Cons:
  "old \<noteq> [] \<Longrightarrow> replace old new (c # s) =
     (if prefix old (c # s) then new @ replace old new (drop (length old) (c # s))
      else c # replace old new s)"
  by (subst replace.simps) simp

lemma replace_skip:
  "old \<noteq> [] \<Longrightarrow> hd old \<notin> set u \<Longrightarrow> replace old new (u @ s) = u @ replace old new s"
proof (induction u)
  case Nil
  show ?case by simp
next
  case (Cons c u)
  then have "\<not> prefix old ((c # u) @ s)" by (cases old) auto
  with Cons show ?case by (simp add: replace_Cons)
qed

lemma replace_hit:
  "old \<noteq> [] \<Longrightarrow> replace old new (old @ s) = new @ replace old new s"
  by (subst replace.simps) simp

lemma replace_keeps_suffix:
  assumes "old \<noteq> []" and "hd old \<notin> set x" and "last old \<notin> set x"
  shows "suffix x s \<Longrightarrow> suffix x (replace old new s)"
proof (induction "length s" arbitrary: s rule: less_induct)
  case less
  show ?case
  proof (cases "s = []")
    case True
    with less.prems show ?thesis by simp
  next
    case False
    note ne = False
    show ?thesis
    proof (cases "prefix old s")
      case True
      then obtain r where s: "s = old @ r" by (auto simp: prefix_def)
      have "suffix x r"
      proof -
        from less.prems s have "suffix x r \<or> (\<exists>x'. x = x' @ r \<and> suffix x' old)"
          by (simp add: suffix_append)
        then show ?thesis
        proof
          assume "\<exists>x'. x = x' @ r \<and> suffix x' old"
          then obtain x' where x: "x = x' @ r" and x': "suffix x' old" by blast
          show ?thesis
          proof (cases "x' = []")
            case True with x show ?thesis by simp
          next
            case False
            with x' have "last x' = last old"
              by (metis assms(1) last_appendR suffix_def)
            with False x have "last old \<in> set x" by (metis last_in_set UnCI set_append)
            with assms(3) show ?thesis by simp
          qed
        qed
      qed
      moreover from assms(1) s have "length r < length s" by simp
      ultimately have "suffix x (replace old new r)" by (simp add: less.hyps)
      then have "suffix x (new @ replace old new r)" by (rule suffix_appendI)
      with assms(1) s show ?thesis by (simp add: replace_hit)
    next
      case False
      obtain c t where s: "s = c # t" using ne by (cases s) auto
      from less.prems s have "x = c # t \<or> suffix x t" by (simp add: suffix_Cons)
      then show ?thesis
      proof
        assume "x = c # t"
        with s assms replace_skip [of old x new "[]"] show ?thesis by simp
      next
        assume "suffix x t"
        with s have "suffix x (replace old new t)" by (simp add: less.hyps)
        then have "suffix x (c # replace old new t)" by (rule suffix_ConsI)
        with assms(1) False s show ?thesis by (simp add: replace_Cons)
      qed
    qed
  qed
qed

lemma border_free_tar_gz: "border_free ''.tar.gz''"
  by (simp add: border_free_def suffix_to_prefix)

lemma replace_ends_with_new:
  assumes "old \<noteq> []" and "border_free old"
  shows "suffix old s \<Longrightarrow> suffix new (replace old new s)"
proof (induction "length s" arbitrary: s rule: less_induct)
  case less
  from less.prems assms(1) have ne: "s \<noteq> []" by auto
  show ?case
  proof (cases "prefix old s")
    case True
    then obtain r where s: "s = old @ r" by (auto simp: prefix_def)
    from less.prems s have "suffix old r \<or> (\<exists>x'. old = x' @ r \<and> suffix x' old)"
      by (simp add: suffix_append)
    then have "r = [] \<or> suffix old r"
    proof
      assume "\<exists>x'. old = x' @ r \<and> suffix x' old"
      then obtain x' where o: "old = x' @ r" and x': "suffix x' old" by blast
      then have "x' \<in> set (prefixes old)" by simp
      with assms(2) x' have "x' = [] \<or> x' = old" by (auto simp: border_free_def)
      with o show ?thesis by auto
    qed simp
    then have "suffix new (new @ replace old new r)"
    proof
      assume "r = []" then show ?thesis by simp
    next
      assume "suffix old r"
      moreover from assms(1) s have "length r < length s" by simp
      ultimately have "suffix new (replace old new r)" by (simp add: less.hyps)
      then show ?thesis by (rule suffix_appendI)
    qed
    with assms(1) s show ?thesis by (simp add: replace_hit)
  next
    case False
    obtain c t where s: "s = c # t" using ne by (cases s) auto
    from less.prems s have "old = c # t \<or> suffix old t" by (simp add: suffix_Cons)
    with False s have "suffix old t" by auto
    with s have "suffix new (replace old new t)" by (simp add: less.hyps)
    then have "suffix new (c # replace old new t)" by (rule suffix_ConsI)
    with assms(1) False s show ?thesis by (simp add: replace_Cons)
  qed
qed

lemma replace_prefix_from_source:
  assumes "old \<noteq> []" and "new \<noteq> []" and "hd new \<notin> set p"
  shows "prefix p (replace old new s) \<Longrightarrow> prefix p s"
  using assms(3)
proof (induction p arbitrary: s)
  case Nil
  show ?case by simp
next
  case (Cons c p)
  from Cons.prems(1) have ne: "s \<noteq> []" by auto
  have np: "\<not> prefix old s"
  proof
    assume "prefix old s"
    then obtain r where "s = old @ r" by (auto simp: prefix_def)
    with assms(1) have "replace old new s = new @ replace old new r" by (simp add: replace_hit)
    with Cons.prems(1) assms(2) have "c = hd new" by (cases new) auto
    with Cons.prems(2) show False by simp
  qed
  obtain d t where s: "s = d # t" using ne by (cases s) auto
  with np assms(1) have "replace old new s = d # replace old new t" by (simp add: replace_Cons)
  with Cons.prems(1) have "c = d" and "prefix p (replace old new t)" by auto
  moreover from Cons.prems(2) have "hd new \<notin> set p" by simp
  ultimately show ?case using Cons.IH s by simp
qed

lemma derived_metadata_name_no_backup_prefix:
  "\<not> prefix ''backup_'' (derived_metadata_name n)"
proof
  assume "prefix ''backup_'' (derived_metadata_name n)"
  then have "prefix ''backup_'' (replace ''backup_'' ''metadata_'' n)"
    unfolding derived_metadata_name_def by (rule replace_prefix_from_source [rotated 3]) simp_all
  then have 1: "prefix ''backup_'' (replace ''backup_'' ''metadata_'' n)"
    and "prefix ''backup_'' n"
    by (auto intro: replace_prefix_from_source [rotated 3])
  then obtain r where "n = ''backup_'' @ r" by (auto simp: prefix_def)
  then have "replace ''backup_'' ''metadata_'' n = ''metadata_'' @ replace ''backup_'' ''metadata_'' r"
    using replace_hit [of "''backup_''" "''metadata_''" r] by simp
  with 1 show False by simp
qed

lemma fnmatch_star:
  "fnmatch (CHR ''*'' # p) s \<longleftrightarrow> (\<exists>u v. s = u @ v \<and> fnmatch p v)"
proof (induction s)
  case Nil
  show ?case by simp
next
  case (Cons c t)
  show ?case
  proof
    assume "fnmatch (CHR ''*'' # p) (c # t)"
    then have "fnmatch p (c # t) \<or> fnmatch (CHR ''*'' # p) t" by simp
    then show "\<exists>u v. c # t = u @ v \<and> fnmatch p v"
    proof
      assume "fnmatch p (c # t)"
      then have "c # t = [] @ (c # t) \<and> fnmatch p (c # t)" by simp
      then show ?thesis by blast
    next
      assume "fnmatch (CHR ''*'' # p) t"
      with Cons obtain u v where "t = u @ v" "fnmatch p v" by blast
      then have "c # t = (c # u) @ v \<and> fnmatch p v" by simp
      then show ?thesis by blast
    qed
  next
    assume "\<exists>u v. c # t = u @ v \<and> fnmatch p v"
    then obtain u v where uv: "c # t = u @ v" and m: "fnmatch p v" by blast
    show "fnmatch (CHR ''*'' # p) (c # t)"
    proof (cases u)
      case Nil
      with uv have "v = c # t" by simp
      with m show ?thesis by simp
    next
      case (Cons d u')
      with uv have "t = u' @ v" by simp
      with m Cons.IH have "fnmatch (CHR ''*'' # p) t" by blast
      then show ?thesis by simp
    qed
  qed
qed

lemma fnmatch_char:
  "c \<noteq> CHR ''*'' \<Longrightarrow> fnmatch (c # p) s \<longleftrightarrow> (\<exists>t. s = c # t \<and> fnmatch p t)"
  by (cases s) auto

lemma fnmatch_literal: "CHR ''*'' \<notin> set p \<Longrightarrow> fnmatch p s \<longleftrightarrow> s = p"
proof (induction p arbitrary: s)
  case Nil
  show ?case by (cases s) simp_all
next
  case (Cons c p)
  then have c: "c \<noteq> CHR ''*''" and p: "CHR ''*'' \<notin> set p" by auto
  have "fnmatch (c # p) s \<longleftrightarrow> (\<exists>t. s = c # t \<and> fnmatch p t)"
    using c by (rule fnmatch_char)
  also have "\<dots> \<longleftrightarrow> (\<exists>t. s = c # t \<and> t = p)"
    using Cons.IH [OF p] by simp
  also have "\<dots> \<longleftrightarrow> s = c # p" by blast
  finally show ?case .
qed

lemma fnmatch_literal_prefix:
  "CHR ''*'' \<notin> set l \<Longrightarrow> fnmatch (l @ p) s \<longleftrightarrow> (\<exists>t. s = l @ t \<and> fnmatch p t)"
proof (induction l arbitrary: s)
  case Nil
  show ?case by simp
next
  case (Cons c l)
  then have c: "c \<noteq> CHR ''*''" and l: "CHR ''*'' \<notin> set l" by auto
  have "fnmatch ((c # l) @ p) s \<longleftrightarrow> (\<exists>t. s = c # t \<and> fnmatch (l @ p) t)"
    using fnmatch_char [OF c, of "l @ p" s] by simp
  also have "\<dots> \<longleftrightarrow> (\<exists>t. s = c # t \<and> (\<exists>t'. t = l @ t' \<and> fnmatch p t'))"
    using Cons.IH [OF l] by simp
  also have "\<dots> \<longleftrightarrow> (\<exists>t. s = (c # l) @ t \<and> fnmatch p t)" by auto
  finally show ?case .
qed

lemma archive_glob:
  "fnmatch ''*backup_*.tar.gz'' n \<longleftrightarrow> (\<exists>u v. n = u @ ''backup_'' @ v @ ''.tar.gz'')"
proof -
  have a: "fnmatch ''*.tar.gz'' t \<longleftrightarrow> (\<exists>w. t = w @ ''.tar.gz'')" for t
    by (simp add: fnmatch_star fnmatch_literal)
  have b: "fnmatch ''backup_*.tar.gz'' v \<longleftrightarrow> (\<exists>w. v = ''backup_'' @ w @ ''.tar.gz'')" for v
    using fnmatch_literal_prefix [of "''backup_''" "''*.tar.gz''" v] a by auto
  have "fnmatch ''*backup_*.tar.gz'' n \<longleftrightarrow> (\<exists>u v. n = u @ v \<and> fnmatch ''backup_*.tar.gz'' v)"
    by (rule fnmatch_star)
  also have "\<dots> \<longleftrightarrow> (\<exists>u v. n = u @ ''backup_'' @ v @ ''.tar.gz'')"
    unfolding b by blast
  finally show ?thesis .
qed

lemma archive_glob_suffix: "fnmatch ''*backup_*.tar.gz'' n \<Longrightarrow> suffix ''.tar.gz'' n"
  unfolding archive_glob by (auto simp: suffix_def)

lemma suffix_last: "suffix x s \<Longrightarrow> x \<noteq> [] \<Longrightarrow> last s = last x"
  by (auto simp: suffix_def)

lemma derived_metadata_name_json:
  assumes "suffix ''.tar.gz'' n"
  shows "suffix ''.json'' (derived_metadata_name n)"
proof -
  have "suffix ''.tar.gz'' (replace ''backup_'' ''metadata_'' n)"
    by (rule replace_keeps_suffix [OF _ _ _ assms]) simp_all
  then show ?thesis
    unfolding derived_metadata_name_def
    by (rule replace_ends_with_new [OF _ border_free_tar_gz, rotated]) simp
qed

lemma last_tar_gz: "suffix ''.tar.gz'' s \<Longrightarrow> last s = CHR ''z''"
  using suffix_last [of "''.tar.gz''" s] by simp

lemma last_json: "suffix ''.json'' s \<Longrightarrow> last s = CHR ''n''"
  using suffix_last [of "''.json''" s] by simp

lemma derived_metadata_name_no_archive:
  assumes "fnmatch ''*backup_*.tar.gz'' n"
  shows "\<not> fnmatch ''*backup_*.tar.gz'' (derived_metadata_name n)"
proof
  assume "fnmatch ''*backup_*.tar.gz'' (derived_metadata_name n)"
  then have "suffix ''.tar.gz'' (derived_metadata_name n)" by (rule archive_glob_suffix)
  then have z: "last (derived_metadata_name n) = CHR ''z''" by (rule last_tar_gz)
  from assms have "suffix ''.tar.gz'' n" by (rule archive_glob_suffix)
  then have "suffix ''.json'' (derived_metadata_name n)" by (rule derived_metadata_name_json)
  then have "last (derived_metadata_name n) = CHR ''n''" by (rule last_json)
  with z show False by simp
qed

lemma metadata_name_no_archive: "\<not> fnmatch ''*backup_*.tar.gz'' (metadata_name T)"
proof
  assume "fnmatch ''*backup_*.tar.gz'' (metadata_name T)"
  then have "suffix ''.tar.gz'' (metadata_name T)" by (rule archive_glob_suffix)
  then have "last (metadata_name T) = CHR ''z''" by (rule last_tar_gz)
  then show False by (simp add: metadata_name_def)
qed

lemma derived_metadata_name_not_written: "derived_metadata_name n \<noteq> metadata_name T"
  using derived_metadata_name_no_backup_prefix [of n] by (auto simp: metadata_name_def)

lemma timestamp_chars_no_b:
  assumes "timestamp_chars T"
  shows "CHR ''b'' \<notin> set T"
proof
  assume "CHR ''b'' \<in> set T"
  with assms have "CHR ''b'' \<in> set ''0123456789_''"
    unfolding timestamp_chars_def list_all_iff by blast
  then show False by simp
qed

lemma timestamp_chars_no_dot:
  assumes "timestamp_chars T"
  shows "CHR ''.'' \<notin> set T"
proof
  assume "CHR ''.'' \<in> set T"
  with assms have "CHR ''.'' \<in> set ''0123456789_''"
    unfolding timestamp_chars_def list_all_iff by blast
  then show False by simp
qed

lemma replace_backup_timestamp:
  assumes "timestamp_chars T"
  shows "replace ''backup_'' ''metadata_'' (T @ ''.tar.gz'') = T @ ''.tar.gz''"
proof -
  from assms have "CHR ''b'' \<notin> set (T @ ''.tar.gz'')"
    by (simp add: timestamp_chars_no_b)
  then have "replace ''backup_'' ''metadata_'' ((T @ ''.tar.gz'') @ []) = (T @ ''.tar.gz'') @ replace ''backup_'' ''metadata_'' []"
    by (intro replace_skip) simp_all
  then show ?thesis by simp
qed

lemma replace_tar_gz_timestamp:
  assumes "timestamp_chars T"
  shows "replace ''.tar.gz'' ''.json'' (T @ ''.tar.gz'') = T @ ''.json''"
proof -
  from assms have "replace ''.tar.gz'' ''.json'' (T @ ''.tar.gz'') = T @ replace ''.tar.gz'' ''.json'' ''.tar.gz''"
    by (intro replace_skip) (simp_all add: timestamp_chars_no_dot)
  also have "replace ''.tar.gz'' ''.json'' ''.tar.gz'' = ''.json''"
    using replace_hit [of "''.tar.gz''" "''.json''" "[]"] by simp
  finally show ?thesis .
qed

lemma derived_config:
  "timestamp_chars T \<Longrightarrow>
   derived_metadata_name (config_archive_name T) = ''config_metadata_'' @ T @ ''.json''"
  by (simp add: derived_metadata_name_def config_archive_name_def replace_Cons
      replace_backup_timestamp replace_tar_gz_timestamp)

lemma derived_database:
  "timestamp_chars T \<Longrightarrow>
   derived_metadata_name (database_archive_name T) = ''database_metadata_'' @ T @ ''.json''"
  by (simp add: derived_metadata_name_def database_archive_name_def replace_Cons
      replace_backup_timestamp replace_tar_gz_timestamp)

lemma derived_monitoring:
  "timestamp_chars T \<Longrightarrow>
   derived_metadata_name (monitoring_archive_name T) = ''monitoring_metadata_'' @ T @ ''.json''"
  by (simp add: derived_metadata_name_def monitoring_archive_name_def replace_Cons
      replace_backup_timestamp replace_tar_gz_timestamp)

lemma archives_match_glob:
  "fnmatch ''*backup_*.tar.gz'' (config_archive_name T)"
  "fnmatch ''*backup_*.tar.gz'' (database_archive_name T)"
  "fnmatch ''*backup_*.tar.gz'' (monitoring_archive_name T)"
proof -
  have "config_archive_name T = ''config_'' @ ''backup_'' @ T @ ''.tar.gz''"
    by (simp add: config_archive_name_def)
  then show "fnmatch ''*backup_*.tar.gz'' (config_archive_name T)"
    unfolding archive_glob by blast
  have "database_archive_name T = ''database_'' @ ''backup_'' @ T @ ''.tar.gz''"
    by (simp add: database_archive_name_def)
  then show "fnmatch ''*backup_*.tar.gz'' (database_archive_name T)"
    unfolding archive_glob by blast
  have "monitoring_archive_name T = ''monitoring_'' @ ''backup_'' @ T @ ''.tar.gz''"
    by (simp add: monitoring_archive_name_def)
  then show "fnmatch ''*backup_*.tar.gz'' (monitoring_archive_name T)"
    unfolding archive_glob by blast
qed

lemma unlink_other:
  "unlink p f = Inr f' \<Longrightarrow> \<not> prefix p q \<Longrightarrow> \<not> prefix q p \<Longrightarrow> lookup f' q = lookup f q"
  by (auto simp: unlink_def lookup_store_other split: option.splits if_splits)

lemma sibling_unrelated:
  "n \<noteq> m \<Longrightarrow> \<not> prefix (bd @ [n]) (bd @ [m]) \<and> \<not> prefix (bd @ [m]) (bd @ [n])"
  by simp

lemma cleanup_file_keeps:
  assumes "m \<noteq> n" and "m \<noteq> derived_metadata_name n"
  shows "lookup (snd (snd (cleanup_file E cutoff (bd @ [n]) (c, f)))) (bd @ [m]) = lookup f (bd @ [m])"
proof -
  have 1: "lookup f1 (bd @ [m]) = lookup f (bd @ [m])" if "unlink (bd @ [n]) f = Inr f1" for f1
    using that assms(1) by (intro unlink_other [of "bd @ [n]"]) simp_all
  have 2: "lookup f2 (bd @ [m]) = lookup f1 (bd @ [m])"
    if "unlink (bd @ [derived_metadata_name n]) f1 = Inr f2" for f1 f2
    using that assms(2) by (intro unlink_other [of "bd @ [derived_metadata_name n]"]) simp_all
  show ?thesis
    using 1 2
    by (auto simp: cleanup_file_def name_def Let_def split: sum.splits)
qed

lemma cleanup_files_keeps:
  assumes "\<forall>n \<in> set ns. m \<noteq> n \<and> m \<noteq> derived_metadata_name n"
  shows "lookup (snd (snd (cleanup_files E cutoff (map (\<lambda>n. bd @ [n]) ns) (c, f)))) (bd @ [m])
    = lookup f (bd @ [m])"
  using assms
proof (induction ns arbitrary: c f)
  case Nil
  show ?case by simp
next
  case (Cons n ns)
  obtain r c' f' where s: "cleanup_file E cutoff (bd @ [n]) (c, f) = (r, c', f')"
    by (cases "cleanup_file E cutoff (bd @ [n]) (c, f)")
  from Cons.prems have "m \<noteq> n" "m \<noteq> derived_metadata_name n" by auto
  then have 1: "lookup f' (bd @ [m]) = lookup f (bd @ [m])"
    using cleanup_file_keeps [of m n E cutoff bd c f] s by simp
  show ?case
  proof (cases r)
    case (Some e)
    with s 1 show ?thesis by simp
  next
    case None
    from Cons.prems have "\<forall>n \<in> set ns. m \<noteq> n \<and> m \<noteq> derived_metadata_name n" by simp
    from Cons.IH [OF this, of c' f'] s None 1 show ?thesis by simp
  qed
qed

lemma cleanup_keeps_metadata:
  "lookup (fs (snd (cleanup_old_backups E self keep_days w))) (backup_dir self @ [metadata_name T])
   = lookup (fs w) (backup_dir self @ [metadata_name T])"
proof -
  let ?ns = "filter (fnmatch ''*backup_*.tar.gz'') (listdir (fs w) (backup_dir self))"
  let ?cutoff = "now E - keep_days * microseconds_per_day"
  have "\<forall>n \<in> set ?ns. metadata_name T \<noteq> n \<and> metadata_name T \<noteq> derived_metadata_name n"
  proof (intro ballI conjI)
    fix n assume "n \<in> set ?ns"
    then have "fnmatch ''*backup_*.tar.gz'' n" by simp
    with metadata_name_no_archive [of T] show "metadata_name T \<noteq> n" by auto
    from derived_metadata_name_not_written [of n T]
    show "metadata_name T \<noteq> derived_metadata_name n" by simp
  qed
  then have "lookup (snd (snd (cleanup_files E ?cutoff (map (\<lambda>n. backup_dir self @ [n]) ?ns) (0, fs w))))
      (backup_dir self @ [metadata_name T]) = lookup (fs w) (backup_dir self @ [metadata_name T])"
    by (rule cleanup_files_keeps)
  then show ?thesis
    by (auto simp: cleanup_old_backups_def glob_def Let_def split: prod.splits option.splits if_splits)
qed

text \<open>
  Claim C9. For a timestamp as the program makes them, the name that the cleanup derives
  from the archive \<^verbatim>\<open>{type}_backup_{timestamp}.tar.gz\<close> of each of the three types is
  \<^verbatim>\<open>{type}_metadata_{timestamp}.json\<close>, which is the name of no metadata file the program
  writes (\<^verbatim>\<open>backup_metadata_{timestamp}.json\<close>, for any timestamp). The three archive names
  match the glob of the cleanup and the name of a metadata file never does. So a cleanup,
  whatever is in the backup directory and however it ends, leaves every metadata file
  of the program as it was.
\<close>

theorem cleanup_derives_wrong_metadata_name:
  "(timestamp_chars T \<longrightarrow>
      derived_metadata_name (config_archive_name T) = ''config_metadata_'' @ T @ ''.json'' \<and>
      derived_metadata_name (database_archive_name T) = ''database_metadata_'' @ T @ ''.json'' \<and>
      derived_metadata_name (monitoring_archive_name T) = ''monitoring_metadata_'' @ T @ ''.json'') \<and>
   ''config_metadata_'' @ T @ ''.json'' \<noteq> metadata_name T' \<and>
   ''database_metadata_'' @ T @ ''.json'' \<noteq> metadata_name T' \<and>
   ''monitoring_metadata_'' @ T @ ''.json'' \<noteq> metadata_name T' \<and>
   fnmatch ''*backup_*.tar.gz'' (config_archive_name T) \<and>
   fnmatch ''*backup_*.tar.gz'' (database_archive_name T) \<and>
   fnmatch ''*backup_*.tar.gz'' (monitoring_archive_name T) \<and>
   \<not> fnmatch ''*backup_*.tar.gz'' (metadata_name T') \<and>
   lookup (fs (snd (cleanup_old_backups E self keep_days w))) (backup_dir self @ [metadata_name T'])
     = lookup (fs w) (backup_dir self @ [metadata_name T'])"
  using derived_config [of T] derived_database [of T] derived_monitoring [of T]
    archives_match_glob [of T] metadata_name_no_archive [of T']
    cleanup_keeps_metadata [of E self keep_days w T']
  by (simp add: metadata_name_def)

lemma lookup_append:
  "lookup f (p @ q) = (case lookup f p of None \<Rightarrow> None | Some m \<Rightarrow> lookup m q)"
proof (induction p arbitrary: f)
  case Nil
  show ?case by simp
next
  case (Cons x p)
  show ?case
  proof (cases f)
    case (Dir es)
    with Cons show ?thesis by (cases "map_of es x") simp_all
  qed simp_all
qed

lemma lookup_child_parent_dir: "lookup f (d @ [n]) = Some v \<Longrightarrow> is_dir f d"
proof -
  assume a: "lookup f (d @ [n]) = Some v"
  then obtain m where m: "lookup f d = Some m" and c: "lookup m [n] = Some v"
    by (auto simp: lookup_append split: option.splits)
  from c have "is_dir_node m" by (cases m) simp_all
  with m show ?thesis by (simp add: is_dir_def)
qed

lemma listdir_iff: "n \<in> set (listdir f d) \<longleftrightarrow> exists f (d @ [n])"
proof (cases "lookup f d")
  case None
  then show ?thesis by (simp add: listdir_def exists_def lookup_append)
next
  case (Some m)
  show ?thesis
  proof (cases m)
    case (Dir es)
    have "n \<in> fst ` set es \<longleftrightarrow> map_of es n \<noteq> None"
      by (simp add: map_of_eq_None_iff)
    with Some Dir show ?thesis
      by (auto simp: listdir_def exists_def lookup_append split: option.splits)
  qed (use Some in \<open>simp_all add: listdir_def exists_def lookup_append\<close>)
qed

lemma distinct_listdir: "distinct (listdir f d)"
  by (simp add: listdir_def split: option.splits node.splits)

lemma unlink_child:
  assumes "unlink (d @ [n]) f = Inr f1"
  shows "lookup f1 (d @ [m]) = (if m = n then None else lookup f (d @ [m]))"
proof -
  from assms obtain v where v: "lookup f (d @ [n]) = Some v" and f1: "f1 = store (d @ [n]) None f"
    by (auto simp: unlink_def split: option.splits if_splits)
  from v have dir: "is_dir f d" by (rule lookup_child_parent_dir)
  show ?thesis
  proof (cases "m = n")
    case True
    with lookup_store_hit [of "d @ [n]" f None "[]"] dir f1 show ?thesis by simp
  next
    case False
    then have "\<not> prefix (d @ [n]) (d @ [m])" "\<not> prefix (d @ [m]) (d @ [n])" by simp_all
    then have "lookup (store (d @ [n]) None f) (d @ [m]) = lookup f (d @ [m])"
      by (rule lookup_store_other)
    with False f1 show ?thesis by simp
  qed
qed

lemma unlink_file: "is_file f p \<Longrightarrow> unlink p f = Inr (store p None f)"
  by (auto simp: unlink_def is_file_def split: option.splits)

lemma archive_not_derived:
  assumes "fnmatch ''*backup_*.tar.gz'' m" and "fnmatch ''*backup_*.tar.gz'' n"
  shows "m \<noteq> derived_metadata_name n"
proof
  assume "m = derived_metadata_name n"
  with assms(1) have "fnmatch ''*backup_*.tar.gz'' (derived_metadata_name n)" by simp
  with derived_metadata_name_no_archive [OF assms(2)] show False by simp
qed

text \<open>What one round of the loop does to the entries of the backup directory.\<close>

lemma cleanup_file_old:
  assumes "fnmatch ''*backup_*.tar.gz'' n"
    and "st_mtime E (bd @ [n]) < cutoff"
    and "is_file f (bd @ [n])"
    and "\<not> is_dir f (bd @ [derived_metadata_name n])"
    and "in_datetime_range (st_mtime E (bd @ [n]))"
  shows "\<exists>f'. cleanup_file E cutoff (bd @ [n]) (c, f) = (None, c + 1, f') \<and>
           (\<forall>m. lookup f' (bd @ [m]) =
             (if m = n \<or> m = derived_metadata_name n then None else lookup f (bd @ [m])))"
proof -
  let ?d = "derived_metadata_name n"
  let ?f1 = "store (bd @ [n]) None f"
  from assms(3) have e: "exists f (bd @ [n])" by (simp add: is_file_exists)
  from assms(3) have u: "unlink (bd @ [n]) f = Inr ?f1" by (rule unlink_file)
  have l1: "lookup ?f1 (bd @ [m]) = (if m = n then None else lookup f (bd @ [m]))" for m
    using u by (rule unlink_child)
  from assms(1) have dn: "?d \<noteq> n" using archive_not_derived [of n n] by simp
  show ?thesis
  proof (cases "exists ?f1 (bd @ [?d])")
    case False
    then have "lookup ?f1 (bd @ [?d]) = None" by (simp add: exists_def)
    with l1 have "\<forall>m. lookup ?f1 (bd @ [m]) =
        (if m = n \<or> m = ?d then None else lookup f (bd @ [m]))" by auto
    moreover have "cleanup_file E cutoff (bd @ [n]) (c, f) = (None, c + 1, ?f1)"
      using e assms(2,5) u False by (simp add: cleanup_file_def name_def)
    ultimately show ?thesis by blast
  next
    case True
    from dn l1 [of ?d] assms(4) have "\<not> is_dir ?f1 (bd @ [?d])" by (simp add: is_dir_def)
    with True have "is_file ?f1 (bd @ [?d])"
      by (auto simp: is_file_def is_dir_def exists_def)
    then have u2: "unlink (bd @ [?d]) ?f1 = Inr (store (bd @ [?d]) None ?f1)" by (rule unlink_file)
    have l2: "lookup (store (bd @ [?d]) None ?f1) (bd @ [m]) =
        (if m = ?d then None else lookup ?f1 (bd @ [m]))" for m
      using u2 by (rule unlink_child)
    have "\<forall>m. lookup (store (bd @ [?d]) None ?f1) (bd @ [m]) =
        (if m = n \<or> m = ?d then None else lookup f (bd @ [m]))"
      using l1 l2 by simp
    moreover have "cleanup_file E cutoff (bd @ [n]) (c, f) =
        (None, c + 1, store (bd @ [?d]) None ?f1)"
      using e assms(2,5) u True u2 by (simp add: cleanup_file_def name_def)
    ultimately show ?thesis by blast
  qed
qed

lemma cleanup_file_new:
  assumes "exists f (bd @ [n])" and "\<not> st_mtime E (bd @ [n]) < cutoff"
    and "in_datetime_range (st_mtime E (bd @ [n]))"
  shows "cleanup_file E cutoff (bd @ [n]) (c, f) = (None, c, f)"
  using assms by (simp add: cleanup_file_def)

lemma cleanup_files_result:
  assumes "distinct ns"
    and "\<forall>n \<in> set ns. fnmatch ''*backup_*.tar.gz'' n \<and> exists f (bd @ [n]) \<and>
           in_datetime_range (st_mtime E (bd @ [n])) \<and>
           (st_mtime E (bd @ [n]) < cutoff \<longrightarrow>
              is_file f (bd @ [n]) \<and> \<not> is_dir f (bd @ [derived_metadata_name n]))"
  shows "\<exists>f'. cleanup_files E cutoff (map (\<lambda>n. bd @ [n]) ns) (c, f) =
           (None, c + int (length (filter (\<lambda>n. st_mtime E (bd @ [n]) < cutoff) ns)), f') \<and>
         (\<forall>m. fnmatch ''*backup_*.tar.gz'' m \<longrightarrow>
            lookup f' (bd @ [m]) =
              (if m \<in> set ns \<and> st_mtime E (bd @ [m]) < cutoff then None
               else lookup f (bd @ [m])))"
  using assms
proof (induction ns arbitrary: c f)
  case Nil
  show ?case by simp
next
  case (Cons n ns)
  let ?old = "\<lambda>n. st_mtime E (bd @ [n]) < cutoff"
  from Cons.prems have d: "distinct ns" and nn: "n \<notin> set ns" by auto
  from Cons.prems have gn: "fnmatch ''*backup_*.tar.gz'' n" and en: "exists f (bd @ [n])"
    and rn: "in_datetime_range (st_mtime E (bd @ [n]))" by auto
  have step: "\<exists>g. cleanup_file E cutoff (bd @ [n]) (c, f) = (None, c + (if ?old n then 1 else 0), g)
      \<and> (\<forall>m. lookup g (bd @ [m]) =
           (if ?old n \<and> (m = n \<or> m = derived_metadata_name n) then None else lookup f (bd @ [m])))"
  proof (cases "?old n")
    case True
    with Cons.prems have "is_file f (bd @ [n])" "\<not> is_dir f (bd @ [derived_metadata_name n])"
      by auto
    with gn True rn show ?thesis using cleanup_file_old [of n E bd cutoff f c] by simp
  next
    case False
    with en rn show ?thesis using cleanup_file_new [of f bd n E cutoff c] by simp
  qed
  then obtain g where g: "cleanup_file E cutoff (bd @ [n]) (c, f) = (None, c + (if ?old n then 1 else 0), g)"
    and lg: "\<And>m. lookup g (bd @ [m]) =
           (if ?old n \<and> (m = n \<or> m = derived_metadata_name n) then None else lookup f (bd @ [m]))"
    by blast
  have same: "lookup g (bd @ [m]) = lookup f (bd @ [m])" if "m \<in> set ns" for m
  proof -
    from that nn have "m \<noteq> n" by auto
    moreover from that Cons.prems have "fnmatch ''*backup_*.tar.gz'' m" by auto
    then have "m \<noteq> derived_metadata_name n" using gn by (rule archive_not_derived)
    ultimately show ?thesis using lg by simp
  qed
  have inv: "\<forall>m \<in> set ns. fnmatch ''*backup_*.tar.gz'' m \<and> exists g (bd @ [m]) \<and>
           in_datetime_range (st_mtime E (bd @ [m])) \<and>
           (?old m \<longrightarrow> is_file g (bd @ [m]) \<and> \<not> is_dir g (bd @ [derived_metadata_name m]))"
  proof
    fix m assume m: "m \<in> set ns"
    with Cons.prems have p: "fnmatch ''*backup_*.tar.gz'' m" "exists f (bd @ [m])"
      "in_datetime_range (st_mtime E (bd @ [m]))"
      "?old m \<longrightarrow> is_file f (bd @ [m]) \<and> \<not> is_dir f (bd @ [derived_metadata_name m])"
      by auto
    have "\<not> is_dir f (bd @ [q]) \<Longrightarrow> \<not> is_dir g (bd @ [q])" for q
      using lg [of q] by (simp add: is_dir_def split: if_splits)
    with p same [OF m] show "fnmatch ''*backup_*.tar.gz'' m \<and> exists g (bd @ [m]) \<and>
           in_datetime_range (st_mtime E (bd @ [m])) \<and>
           (?old m \<longrightarrow> is_file g (bd @ [m]) \<and> \<not> is_dir g (bd @ [derived_metadata_name m]))"
      by (simp add: exists_def is_file_def)
  qed
  from Cons.IH [OF d inv, of "c + (if ?old n then 1 else 0)"]
  obtain f' where f': "cleanup_files E cutoff (map (\<lambda>n. bd @ [n]) ns) (c + (if ?old n then 1 else 0), g) =
           (None, c + (if ?old n then 1 else 0) + int (length (filter ?old ns)), f')"
    and lf: "\<And>m. fnmatch ''*backup_*.tar.gz'' m \<Longrightarrow>
            lookup f' (bd @ [m]) = (if m \<in> set ns \<and> ?old m then None else lookup g (bd @ [m]))"
    by blast
  have 1: "cleanup_files E cutoff (map (\<lambda>n. bd @ [n]) (n # ns)) (c, f) =
           (None, c + int (length (filter ?old (n # ns))), f')"
    using g f' by simp
  have 2: "lookup f' (bd @ [m]) =
      (if m \<in> set (n # ns) \<and> ?old m then None else lookup f (bd @ [m]))"
    if "fnmatch ''*backup_*.tar.gz'' m" for m
  proof -
    from that gn have "m \<noteq> derived_metadata_name n" by (rule archive_not_derived)
    with lf [OF that] lg [of m] show ?thesis by auto
  qed
  from 1 2 show ?case by blast
qed

text \<open>
  Claim C8, as written, fails where the cutoff cannot be computed: asked to keep 800000
  days, with the clock at day 739000, \<^verbatim>\<open>datetime.now() - timedelta(days=800000)\<close> is before
  \<^verbatim>\<open>datetime.min\<close>; the method raises \<^verbatim>\<open>OverflowError\<close>, returns no count and leaves
  the directory as it was.
\<close>

theorem cleanup_cutoff_out_of_range:
  "cleanup_old_backups cleanup_env example_self 800000 cleanup_world
     = (Inl ''OverflowError'', cleanup_world)"
  by (simp add: cleanup_old_backups_def cleanup_env_def example_env_def timedelta_max_days_def
      in_datetime_range_def microseconds_per_day_def)

text \<open>
  Claim C8, amended. Let \<^verbatim>\<open>keep_days\<close> be at most 999999999 in magnitude and the cutoff, the
  clock minus \<^verbatim>\<open>keep_days\<close> days, a date that \<^verbatim>\<open>datetime\<close> can hold. If every entry of
  the backup directory that matches \<^verbatim>\<open>*backup_*.tar.gz\<close> has a modification time that
  \<^verbatim>\<open>datetime\<close> can hold and, when it is older than the cutoff, is a regular file and the
  name derived from it is not the name of a directory, then \<^verbatim>\<open>cleanup_old_backups\<close>
  returns the number of the entries that match and are older than the cutoff, runs no
  command, and afterwards, for every name that matches the glob: the entry is gone when
  its modification time is strictly below the cutoff, and is what it was before
  otherwise. The metadata files removed on the way do not enter the count.
\<close>

theorem cleanup_removes_exactly_old_archives:
  assumes "\<bar>keep_days\<bar> \<le> timedelta_max_days"
    and "in_datetime_range (now E - keep_days * microseconds_per_day)"
    and "\<forall>n \<in> set (listdir (fs w) (backup_dir self)).
      fnmatch ''*backup_*.tar.gz'' n \<longrightarrow>
        in_datetime_range (st_mtime E (backup_dir self @ [n])) \<and>
        (st_mtime E (backup_dir self @ [n]) < now E - keep_days * microseconds_per_day \<longrightarrow>
           is_file (fs w) (backup_dir self @ [n]) \<and>
           \<not> is_dir (fs w) (backup_dir self @ [derived_metadata_name n]))"
  shows "\<exists>w'. cleanup_old_backups E self keep_days w =
           (Inr (int (length (filter
                   (\<lambda>n. fnmatch ''*backup_*.tar.gz'' n \<and>
                        st_mtime E (backup_dir self @ [n]) < now E - keep_days * microseconds_per_day)
                   (listdir (fs w) (backup_dir self))))), w') \<and>
         cmds w' = cmds w \<and>
         (\<forall>n. fnmatch ''*backup_*.tar.gz'' n \<longrightarrow>
            lookup (fs w') (backup_dir self @ [n]) =
              (if st_mtime E (backup_dir self @ [n]) < now E - keep_days * microseconds_per_day
               then None else lookup (fs w) (backup_dir self @ [n])))"
proof -
  let ?bd = "backup_dir self"
  let ?cutoff = "now E - keep_days * microseconds_per_day"
  let ?old = "\<lambda>n. st_mtime E (?bd @ [n]) < ?cutoff"
  let ?ns = "filter (fnmatch ''*backup_*.tar.gz'') (listdir (fs w) ?bd)"
  have d: "distinct ?ns" by (simp add: distinct_listdir)
  have inv: "\<forall>n \<in> set ?ns. fnmatch ''*backup_*.tar.gz'' n \<and> exists (fs w) (?bd @ [n]) \<and>
      in_datetime_range (st_mtime E (?bd @ [n])) \<and>
      (?old n \<longrightarrow> is_file (fs w) (?bd @ [n]) \<and> \<not> is_dir (fs w) (?bd @ [derived_metadata_name n]))"
    using assms(3) by (auto simp: listdir_iff)
  from cleanup_files_result [OF d inv, of 0]
  obtain f' where r: "cleanup_files E ?cutoff (map (\<lambda>n. ?bd @ [n]) ?ns) (0, fs w) =
      (None, int (length (filter ?old ?ns)), f')"
    and l: "\<And>m. fnmatch ''*backup_*.tar.gz'' m \<Longrightarrow> lookup f' (?bd @ [m]) =
      (if m \<in> set ?ns \<and> ?old m then None else lookup (fs w) (?bd @ [m]))"
    by auto
  have c: "filter ?old ?ns =
      filter (\<lambda>n. fnmatch ''*backup_*.tar.gz'' n \<and> ?old n) (listdir (fs w) ?bd)"
    by (simp add: conj_commute)
  from assms(1) have k: "\<not> \<bar>keep_days\<bar> > timedelta_max_days" by simp
  have 1: "cleanup_old_backups E self keep_days w =
      (Inr (int (length (filter (\<lambda>n. fnmatch ''*backup_*.tar.gz'' n \<and> ?old n)
          (listdir (fs w) ?bd)))), w\<lparr>fs := f'\<rparr>)"
    using r c k assms(2) by (simp add: cleanup_old_backups_def glob_def)
  have 2: "lookup f' (?bd @ [m]) = (if ?old m then None else lookup (fs w) (?bd @ [m]))"
    if "fnmatch ''*backup_*.tar.gz'' m" for m
  proof (cases "m \<in> set ?ns")
    case True
    with l [OF that] show ?thesis by simp
  next
    case False
    with that have "lookup (fs w) (?bd @ [m]) = None" by (simp add: listdir_iff exists_def)
    with False l [OF that] show ?thesis by simp
  qed
  from 1 2 show ?thesis by simp
qed

lemma derived_january:
  "derived_metadata_name ''config_backup_20240101_120000.tar.gz'' = ''config_metadata_20240101_120000.json''"
  by (simp add: derived_metadata_name_def replace_Cons)

lemma listdir_cleanup:
  "listdir (fs cleanup_world) [''opt'', ''backups''] =
     [''config_backup_20240101_120000.tar.gz'', ''backup_metadata_20240101_120000.json'',
      ''config_metadata_20240101_120000.json'', ''config_backup_20240301_120000.tar.gz'']"
  by (simp add: listdir_def cleanup_world_def cleanup_fs_def example_defs)

theorem cleanup_removes_exactly_old_archives_witness:
  "\<bar>30 :: int\<bar> \<le> timedelta_max_days \<and>
   in_datetime_range (now cleanup_env - 30 * microseconds_per_day) \<and>
   listdir (fs cleanup_world) (backup_dir example_self) =
     [''config_backup_20240101_120000.tar.gz'', ''backup_metadata_20240101_120000.json'',
      ''config_metadata_20240101_120000.json'', ''config_backup_20240301_120000.tar.gz''] \<and>
   fnmatch ''*backup_*.tar.gz'' ''config_backup_20240101_120000.tar.gz'' \<and>
   in_datetime_range
     (st_mtime cleanup_env (backup_dir example_self @ [''config_backup_20240101_120000.tar.gz''])) \<and>
   in_datetime_range
     (st_mtime cleanup_env (backup_dir example_self @ [''config_backup_20240301_120000.tar.gz''])) \<and>
   st_mtime cleanup_env (backup_dir example_self @ [''config_backup_20240101_120000.tar.gz''])
     < now cleanup_env - 30 * microseconds_per_day \<and>
   is_file (fs cleanup_world) (backup_dir example_self @ [''config_backup_20240101_120000.tar.gz'']) \<and>
   \<not> is_dir (fs cleanup_world) (backup_dir example_self @
        [derived_metadata_name ''config_backup_20240101_120000.tar.gz'']) \<and>
   fst (cleanup_old_backups cleanup_env example_self 30 cleanup_world) = Inr 1 \<and>
   lookup (fs (snd (cleanup_old_backups cleanup_env example_self 30 cleanup_world)))
     [''opt'', ''backups'', ''config_backup_20240101_120000.tar.gz''] = None \<and>
   lookup (fs (snd (cleanup_old_backups cleanup_env example_self 30 cleanup_world)))
     [''opt'', ''backups'', ''config_backup_20240301_120000.tar.gz'']
     = Some (TarGzFile ''config_20240301_120000'' (Dir []))"
proof -
  have bd: "backup_dir example_self = [''opt'', ''backups'']" by (simp add: example_defs)
  have m1: "fnmatch ''*backup_*.tar.gz'' ''config_backup_20240101_120000.tar.gz''"
    using archives_match_glob(1) [of "''20240101_120000''"] by (simp add: config_archive_name_def)
  have m4: "fnmatch ''*backup_*.tar.gz'' ''config_backup_20240301_120000.tar.gz''"
    using archives_match_glob(1) [of "''20240301_120000''"] by (simp add: config_archive_name_def)
  have m2: "\<not> fnmatch ''*backup_*.tar.gz'' ''backup_metadata_20240101_120000.json''"
    using metadata_name_no_archive [of "''20240101_120000''"] by (simp add: metadata_name_def)
  have m3: "\<not> fnmatch ''*backup_*.tar.gz'' ''config_metadata_20240101_120000.json''"
    using derived_metadata_name_no_archive [OF m1] by (simp add: derived_january del: fnmatch.simps)
  have t: "now cleanup_env - 30 * microseconds_per_day = 738970 * microseconds_per_day"
    by (simp add: cleanup_env_def example_env_def)
  have o1: "st_mtime cleanup_env [''opt'', ''backups'', ''config_backup_20240101_120000.tar.gz'']
      = 738910 * microseconds_per_day"
    and o4: "st_mtime cleanup_env [''opt'', ''backups'', ''config_backup_20240301_120000.tar.gz'']
      = 738995 * microseconds_per_day"
    by (simp_all add: cleanup_env_def)
  have k: "\<bar>30 :: int\<bar> \<le> timedelta_max_days" by (simp add: timedelta_max_days_def)
  have rc: "in_datetime_range (now cleanup_env - 30 * microseconds_per_day)"
    unfolding t by (simp add: in_datetime_range_def datetime_max_def microseconds_per_day_def)
  have r1: "in_datetime_range
     (st_mtime cleanup_env (backup_dir example_self @ [''config_backup_20240101_120000.tar.gz'']))"
    unfolding bd
    by (simp add: o1 in_datetime_range_def datetime_max_def microseconds_per_day_def)
  have r4: "in_datetime_range
     (st_mtime cleanup_env (backup_dir example_self @ [''config_backup_20240301_120000.tar.gz'']))"
    unfolding bd
    by (simp add: o4 in_datetime_range_def datetime_max_def microseconds_per_day_def)
  have h: "\<forall>n \<in> set (listdir (fs cleanup_world) (backup_dir example_self)).
      fnmatch ''*backup_*.tar.gz'' n \<longrightarrow>
        in_datetime_range (st_mtime cleanup_env (backup_dir example_self @ [n])) \<and>
        (st_mtime cleanup_env (backup_dir example_self @ [n])
           < now cleanup_env - 30 * microseconds_per_day \<longrightarrow>
           is_file (fs cleanup_world) (backup_dir example_self @ [n]) \<and>
           \<not> is_dir (fs cleanup_world) (backup_dir example_self @ [derived_metadata_name n]))"
    unfolding bd listdir_cleanup t
    by (simp add: m1 m2 m3 m4 o1 o4 derived_january microseconds_per_day_def
        in_datetime_range_def datetime_max_def
        is_file_def is_dir_def cleanup_world_def cleanup_fs_def del: fnmatch.simps)
  from cleanup_removes_exactly_old_archives [OF k rc h]
  obtain w' where r: "cleanup_old_backups cleanup_env example_self 30 cleanup_world =
           (Inr (int (length (filter
                   (\<lambda>n. fnmatch ''*backup_*.tar.gz'' n \<and>
                        st_mtime cleanup_env (backup_dir example_self @ [n])
                          < now cleanup_env - 30 * microseconds_per_day)
                   (listdir (fs cleanup_world) (backup_dir example_self))))), w')"
    and l: "\<And>n. fnmatch ''*backup_*.tar.gz'' n \<Longrightarrow>
            lookup (fs w') (backup_dir example_self @ [n]) =
              (if st_mtime cleanup_env (backup_dir example_self @ [n])
                    < now cleanup_env - 30 * microseconds_per_day
               then None else lookup (fs cleanup_world) (backup_dir example_self @ [n]))"
    by blast
  have c: "fst (cleanup_old_backups cleanup_env example_self 30 cleanup_world) = Inr 1"
    unfolding r bd listdir_cleanup t
    by (simp add: m1 m2 m3 m4 o1 o4 microseconds_per_day_def del: fnmatch.simps)
  have a1: "lookup (fs w') [''opt'', ''backups'', ''config_backup_20240101_120000.tar.gz''] = None"
    using l [OF m1] unfolding bd t by (simp add: o1 microseconds_per_day_def)
  have a4: "lookup (fs w') [''opt'', ''backups'', ''config_backup_20240301_120000.tar.gz'']
      = Some (TarGzFile ''config_20240301_120000'' (Dir []))"
    using l [OF m4] unfolding bd t
    by (simp add: o4 microseconds_per_day_def cleanup_world_def cleanup_fs_def)
  have l: "listdir (fs cleanup_world) (backup_dir example_self) =
     [''config_backup_20240101_120000.tar.gz'', ''backup_metadata_20240101_120000.json'',
      ''config_metadata_20240101_120000.json'', ''config_backup_20240301_120000.tar.gz'']"
    unfolding bd by (rule listdir_cleanup)
  have s1: "st_mtime cleanup_env (backup_dir example_self @ [''config_backup_20240101_120000.tar.gz''])
     < now cleanup_env - 30 * microseconds_per_day"
    unfolding bd t by (simp add: o1 microseconds_per_day_def)
  have s2: "is_file (fs cleanup_world) (backup_dir example_self @ [''config_backup_20240101_120000.tar.gz''])"
    unfolding bd by (simp add: is_file_def cleanup_world_def cleanup_fs_def)
  have s3: "\<not> is_dir (fs cleanup_world) (backup_dir example_self @
        [derived_metadata_name ''config_backup_20240101_120000.tar.gz''])"
    unfolding bd derived_january by (simp add: is_dir_def cleanup_world_def cleanup_fs_def)
  have w': "snd (cleanup_old_backups cleanup_env example_self 30 cleanup_world) = w'"
    unfolding r by simp
  note a1' = a1 [folded w'] and a4' = a4 [folded w']
  show ?thesis by (intro conjI k rc l m1 r1 r4 s1 s2 s3 c a1' a4')
qed

theorem cleanup_derives_wrong_metadata_name_witness:
  "timestamp_chars ''20240101_120000'' \<and>
   derived_metadata_name (config_archive_name ''20240101_120000'')
     = ''config_metadata_20240101_120000.json'' \<and>
   derived_metadata_name (database_archive_name ''20240101_120000'')
     = ''database_metadata_20240101_120000.json'' \<and>
   derived_metadata_name (monitoring_archive_name ''20240101_120000'')
     = ''monitoring_metadata_20240101_120000.json'' \<and>
   metadata_name ''20240101_120000'' = ''backup_metadata_20240101_120000.json'' \<and>
   lookup (fs (snd (cleanup_old_backups cleanup_env example_self 30 cleanup_world)))
     [''opt'', ''backups'', ''backup_metadata_20240101_120000.json'']
     = Some (JsonFile \<lparr>timestamp = ''20240101_120000'', hostname = ''lab1'',
                      backup_type = ''full'', results = []\<rparr>)"
proof -
  have h: "timestamp_chars ''20240101_120000''" by (simp add: timestamp_chars_def)
  have bd: "backup_dir example_self = [''opt'', ''backups'']" by (simp add: example_defs)
  have l: "lookup (fs cleanup_world) [''opt'', ''backups'', ''backup_metadata_20240101_120000.json'']
     = Some (JsonFile \<lparr>timestamp = ''20240101_120000'', hostname = ''lab1'',
                      backup_type = ''full'', results = []\<rparr>)"
    by (simp add: cleanup_world_def cleanup_fs_def)
  from cleanup_derives_wrong_metadata_name
    [of "''20240101_120000''" "''20240101_120000''" cleanup_env example_self 30 cleanup_world]
    h bd l
  show ?thesis by (simp add: metadata_name_def del: fnmatch.simps)
qed





















end
